theory Spec2Isabelle
  imports Main
begin

section \<open>Data model of tinycss/core.py\<close>

text \<open>
  Tokens come from the tokenizer module, which is not part of the sources at hand; the
  parser only reads their attributes. A plain \<open>Token\<close> has \<open>type\<close>, \<open>value\<close>, \<open>as_css\<close>,
  \<open>line\<close> and \<open>column\<close>; a \<open>ContainerToken\<close> is built by the parser itself as
  \<open>ContainerToken(type, css_start, css_end, content, line, column)\<close>. Token types are
  Python strings. The payload \<open>value\<close> is only ever used through \<open>.value.lower()\<close>, so it
  is kept as a string as well.
\<close>

datatype token =
    Token (tok_type: string) (tok_value: string) (tok_as_css: string)
          (tok_line: int) (tok_column: int)
  | ContainerToken (tok_type: string) (css_start: string) (css_end: string)
          (tok_content: "token list") (tok_line: int) (tok_column: int)

datatype css_declaration =
  Declaration (decl_name: string) (decl_value: token) (decl_line: int) (decl_column: int)

datatype rule =
    AtRule (rule_keyword: string) (rule_head: "token list") (rule_body: "token option")
           (rule_line: int) (rule_column: int)
  | RuleSet (rule_selector: token) (rule_declarations: "css_declaration list")
           (rule_line: int) (rule_column: int)

text \<open>\<open>RuleSet.at_keyword\<close> is the class attribute \<open>None\<close>; an \<open>AtRule\<close> stores its own.\<close>

fun at_keyword :: "rule \<Rightarrow> string option" where
  "at_keyword (AtRule kw h b l c) = Some kw"
| "at_keyword (RuleSet s ds l c) = None"

text \<open>The subject of a \<open>ParseError\<close> is a token or (in the at-rule handlers) a rule.\<close>

datatype subject = OfToken token | OfRule rule

datatype parse_error = ParseError (subject: subject) (reason: string)

text \<open>
  Everything Python can raise in this module: \<open>ParseError\<close>, which the parser catches
  at its recovery points, and the built-in exceptions, which it never catches.
\<close>

datatype exn =
    Raised parse_error
  | StopIteration
  | UnboundLocalError
  | AttributeError
  | IndexError
  | TypeError

datatype stylesheet = Stylesheet (sheet_rules: "rule list") (sheet_errors: "parse_error list")

section \<open>String helpers\<close>

text \<open>
  A Python string is kept as the list of the bytes of its UTF-8 encoding. Equality,
  concatenation, emptiness, the test of the first character against an ASCII character
  and the substring test against an ASCII string give the same on the encodings as on the
  strings.
\<close>

text \<open>
  \<open>str.lower()\<close>. On a string of ASCII characters it maps the letters \<open>A\<close> to \<open>Z\<close> to \<open>a\<close> to
  \<open>z\<close> and keeps every other character. On a string with a non-ASCII character the result
  comes from the Unicode case tables of the Python that runs the code, and it may differ
  from the string in length. These tables are no part of the sources: they are the
  parameter \<open>ul\<close>, the function that \<open>str.lower()\<close> is on such strings. Every function of the
  parser that lower-cases, or calls one that does, takes \<open>ul\<close> as its first argument, and a
  statement with a free \<open>ul\<close> holds for every such function.
\<close>

definition char_lower :: "char \<Rightarrow> char" where
  "char_lower c =
     (let n = (of_char c :: nat)
      in if 65 \<le> n \<and> n \<le> 90 then char_of (n + 32) else c)"

definition is_ascii :: "string \<Rightarrow> bool" where
  "is_ascii s = list_all (\<lambda>c. (of_char c :: nat) < 128) s"

definition lower :: "(string \<Rightarrow> string) \<Rightarrow> string \<Rightarrow> string" where
  "lower ul s = (if is_ascii s then map char_lower s else ul s)"

text \<open>Python's \<open>a in b\<close> on two strings: \<open>a\<close> occurs in \<open>b\<close> as a substring.\<close>

fun str_in :: "string \<Rightarrow> string \<Rightarrow> bool" where
  "str_in a [] = (a = [])"
| "str_in a (c # cs) = (take (length a) (c # cs) = a \<or> str_in a cs)"

text \<open>Attribute reads that only one of the two token classes supports.\<close>

fun get_value :: "token \<Rightarrow> exn + string" where
  "get_value (Token t v css l c) = Inr v"
| "get_value (ContainerToken t s e content l c) = Inl AttributeError"

fun get_content :: "token \<Rightarrow> exn + token list" where
  "get_content (Token t v css l c) = Inl AttributeError"
| "get_content (ContainerToken t s e content l c) = Inr content"

text \<open>
  \<open>as_css\<close> is stored on a plain token; on a container it is the opening text, the
  content's text and the closing text.
\<close>

fun as_css :: "token \<Rightarrow> string" where
  "as_css (Token t v css l c) = css"
| "as_css (ContainerToken t s e content l c) = s @ concat (map as_css content) @ e"

section \<open>Grammar validators\<close>

definition any_types :: "string list" where
  "any_types = [''S'', ''IDENT'', ''DIMENSION'', ''PERCENTAGE'', ''NUMBER'',
                ''URI'', ''DELIM'', ''STRING'', ''HASH'', '':'', ''UNICODE-RANGE'']"

definition adjective :: "string \<Rightarrow> string" where
  "adjective ty = (if ty \<in> set [''}'', '')'', '']''] then ''unmatched'' else ''unexpected'')"

definition any_error :: "token \<Rightarrow> string \<Rightarrow> exn" where
  "any_error token ctx =
     Raised (ParseError (OfToken token)
       (adjective (tok_type token) @ '' '' @ tok_type token @ '' token in '' @ ctx))"

fun validate_any :: "token \<Rightarrow> string \<Rightarrow> exn + unit"
  and validate_any_each :: "token list \<Rightarrow> string \<Rightarrow> exn + unit" where
  "validate_any (Token ty v css l c) ctx =
     (if ty \<in> set [''FUNCTION'', ''('', ''[''] then Inl AttributeError
      else if ty \<notin> set any_types then Inl (any_error (Token ty v css l c) ctx)
      else Inr ())"
| "validate_any (ContainerToken ty s e content l c) ctx =
     (if ty \<in> set [''FUNCTION'', ''('', ''[''] then validate_any_each content ty
      else if ty \<notin> set any_types
        then Inl (any_error (ContainerToken ty s e content l c) ctx)
      else Inr ())"
| "validate_any_each [] ctx = Inr ()"
| "validate_any_each (token # tokens) ctx =
     (case validate_any token ctx of
        Inl e \<Rightarrow> Inl e
      | Inr u \<Rightarrow> validate_any_each tokens ctx)"

fun validate_block :: "token list \<Rightarrow> string \<Rightarrow> exn + unit" where
  "validate_block [] ctx = Inr ()"
| "validate_block (Token ty v css l c # tokens) ctx =
     (if ty = ''{'' then Inl AttributeError
      else if ty \<notin> set ['';'', ''ATKEYWORD''] then
        (case validate_any (Token ty v css l c) ctx of
           Inl e \<Rightarrow> Inl e
         | Inr u \<Rightarrow> validate_block tokens ctx)
      else validate_block tokens ctx)"
| "validate_block (ContainerToken ty s e content l c # tokens) ctx =
     (if ty = ''{'' then
        (case validate_block content ctx of
           Inl e \<Rightarrow> Inl e
         | Inr u \<Rightarrow> validate_block tokens ctx)
      else if ty \<notin> set ['';'', ''ATKEYWORD''] then
        (case validate_any (ContainerToken ty s e content l c) ctx of
           Inl e \<Rightarrow> Inl e
         | Inr u \<Rightarrow> validate_block tokens ctx)
      else validate_block tokens ctx)"

section \<open>Declaration engine\<close>

text \<open>
  \<open>parse_value\<close>: the \<open>for\<close> loop with its list \<open>content\<close>, then the \<open>while\<close> loop that
  pops trailing white space.
\<close>

fun parse_value_loop :: "token list \<Rightarrow> token list \<Rightarrow> exn + token list" where
  "parse_value_loop content [] = Inr content"
| "parse_value_loop content (token # tokens) =
     (if content \<noteq> [] \<or> tok_type token \<noteq> ''S'' then
        (case (if tok_type token = ''{'' then
                 (case get_content token of
                    Inl e \<Rightarrow> Inl e
                  | Inr c \<Rightarrow> validate_block c ''property value'')
               else validate_any token ''property value'') of
           Inl e \<Rightarrow> Inl e
         | Inr u \<Rightarrow> parse_value_loop (content @ [token]) tokens)
      else parse_value_loop content tokens)"

function pop_spaces :: "token list \<Rightarrow> token list" where
  "pop_spaces content =
     (if content \<noteq> [] \<and> tok_type (last content) = ''S'' then pop_spaces (butlast content)
      else content)"
  by pat_completeness auto
termination
  by (relation "measure length") auto

declare pop_spaces.simps [simp del]

definition parse_value :: "token list \<Rightarrow> exn + token list" where
  "parse_value tokens =
     (case parse_value_loop [] tokens of
        Inl e \<Rightarrow> Inl e
      | Inr content \<Rightarrow> Inr (pop_spaces content))"

text \<open>The text \<open>':'\<close> of the two messages about a missing colon.\<close>

definition quoted_colon :: string where
  "quoted_colon = [CHR 0x27, CHR '':'', CHR 0x27]"

text \<open>
  The \<open>for ... else\<close> loop of \<open>parse_declaration\<close> that looks for the colon. Its loop
  variable \<open>token\<close> is a local that nothing assigns before the loop: it is \<open>None\<close> here until
  the loop has run once, and the \<open>else\<close> branch reads it.
\<close>

fun find_colon :: "token option \<Rightarrow> token list \<Rightarrow> exn + token \<times> token list" where
  "find_colon prev [] =
     (case prev of
        None \<Rightarrow> Inl UnboundLocalError
      | Some token \<Rightarrow> Inl (Raised (ParseError (OfToken token) (''expected '' @ quoted_colon))))"
| "find_colon prev (token # tokens) =
     (if tok_type token = '':'' then Inr (token, tokens)
      else if tok_type token \<noteq> ''S'' then
        Inl (Raised (ParseError (OfToken token)
               (''expected '' @ quoted_colon @ '', got '' @ tok_type token)))
      else find_colon (Some token) tokens)"

fun parse_declaration :: "(string \<Rightarrow> string) \<Rightarrow> token list \<Rightarrow> exn + css_declaration" where
  "parse_declaration ul [] = Inl StopIteration"
| "parse_declaration ul (name_token # tokens) =
     (if tok_type name_token = ''IDENT'' then
        (case get_value name_token of
           Inl e \<Rightarrow> Inl e
         | Inr v \<Rightarrow>
            (case find_colon None tokens of
               Inl e \<Rightarrow> Inl e
             | Inr (token, rest) \<Rightarrow>
                (case parse_value rest of
                   Inl e \<Rightarrow> Inl e
                 | Inr [] \<Rightarrow>
                     Inl (Raised (ParseError (OfToken token) ''expected a property value''))
                 | Inr (first # more) \<Rightarrow>
                     Inr (Declaration (lower ul v)
                            (ContainerToken ''VALUES'' [] [] (first # more)
                               (tok_line first) (tok_column first))
                            (tok_line name_token) (tok_column name_token)))))
      else Inl (Raised (ParseError (OfToken name_token)
                  (''expected a property name, got '' @ tok_type name_token))))"

text \<open>
  \<open>parse_declaration_list\<close>: the first loop splits at \<open>';'\<close> with the lists \<open>parts\<close> and
  \<open>this_part\<close>; the second parses every part and catches \<open>ParseError\<close> only.
\<close>

fun split_parts :: "token list list \<Rightarrow> token list \<Rightarrow> token list \<Rightarrow> token list list" where
  "split_parts parts this_part [] = (if this_part \<noteq> [] then parts @ [this_part] else parts)"
| "split_parts parts this_part (token # tokens) =
     (if tok_type token = '';'' then
        split_parts (if this_part \<noteq> [] then parts @ [this_part] else parts) [] tokens
      else if this_part \<noteq> [] \<or> tok_type token \<noteq> ''S'' then
        split_parts parts (this_part @ [token]) tokens
      else split_parts parts this_part tokens)"

fun parse_parts :: "(string \<Rightarrow> string) \<Rightarrow> css_declaration list \<Rightarrow> parse_error list \<Rightarrow> token list list
    \<Rightarrow> exn + css_declaration list \<times> parse_error list" where
  "parse_parts ul decls errs [] = Inr (decls, errs)"
| "parse_parts ul decls errs (part # parts) =
     (case parse_declaration ul part of
        Inr d \<Rightarrow> parse_parts ul (decls @ [d]) errs parts
      | Inl x \<Rightarrow>
         (case x of
            Raised e \<Rightarrow> parse_parts ul decls (errs @ [e]) parts
          | _ \<Rightarrow> Inl x))"

definition parse_declaration_list :: "(string \<Rightarrow> string) \<Rightarrow> token list
    \<Rightarrow> exn + css_declaration list \<times> parse_error list" where
  "parse_declaration_list ul tokens = parse_parts ul [] [] (split_parts [] [] tokens)"

section \<open>Rule engine\<close>

text \<open>
  The two readers consume the shared iterator \<open>tokens\<close>; the model returns what is left of
  it beside the result. \<open>prev\<close> is the loop variable after the last iteration, read by the
  \<open>raise\<close> that follows the loop.
\<close>

fun read_at_rule_loop :: "string \<Rightarrow> token \<Rightarrow> token list \<Rightarrow> token \<Rightarrow> token list
    \<Rightarrow> (exn + rule) \<times> token list" where
  "read_at_rule_loop kw at_keyword_token hd_toks prev [] =
     (Inl (Raised (ParseError (OfToken prev) ''incomplete at-rule'')), [])"
| "read_at_rule_loop kw at_keyword_token hd_toks prev (token # tokens) =
     (if str_in (tok_type token) ''{;'' then
        (case validate_any_each hd_toks ''at-rule head'' of
           Inl e \<Rightarrow> (Inl e, tokens)
         | Inr u \<Rightarrow>
            (Inr (AtRule kw hd_toks (if tok_type token = ''{'' then Some token else None)
                    (tok_line at_keyword_token) (tok_column at_keyword_token)),
             tokens))
      else if hd_toks \<noteq> [] \<or> tok_type token \<noteq> ''S'' then
        read_at_rule_loop kw at_keyword_token (hd_toks @ [token]) token tokens
      else read_at_rule_loop kw at_keyword_token hd_toks token tokens)"

definition read_at_rule :: "(string \<Rightarrow> string) \<Rightarrow> token \<Rightarrow> token list \<Rightarrow> (exn + rule) \<times> token list" where
  "read_at_rule ul at_keyword_token tokens =
     (case get_value at_keyword_token of
        Inl e \<Rightarrow> (Inl e, tokens)
      | Inr v \<Rightarrow> read_at_rule_loop (lower ul v) at_keyword_token [] at_keyword_token tokens)"

fun parse_ruleset_loop :: "(string \<Rightarrow> string) \<Rightarrow> token \<Rightarrow> token list \<Rightarrow> token \<Rightarrow> token list
    \<Rightarrow> (exn + rule \<times> parse_error list) \<times> token list" where
  "parse_ruleset_loop ul first_token selector_parts prev [] =
     (Inl (Raised (ParseError (OfToken prev) ''no declaration block found for ruleset'')), [])"
| "parse_ruleset_loop ul first_token selector_parts prev (token # tokens) =
     (if tok_type token = ''{'' then
        (case validate_any_each selector_parts ''selector'' of
           Inl e \<Rightarrow> (Inl e, tokens)
         | Inr u \<Rightarrow>
            (let start = (case selector_parts of [] \<Rightarrow> token | s # ss \<Rightarrow> s);
                 sel = ContainerToken ''SELECTOR'' [] [] selector_parts
                         (tok_line start) (tok_column start)
             in case get_content token of
                  Inl e \<Rightarrow> (Inl e, tokens)
                | Inr content \<Rightarrow>
                   (case parse_declaration_list ul content of
                      Inl e \<Rightarrow> (Inl e, tokens)
                    | Inr (decls, errs) \<Rightarrow>
                       (Inr (RuleSet sel decls (tok_line first_token) (tok_column first_token),
                             errs),
                        tokens))))
      else parse_ruleset_loop ul first_token (selector_parts @ [token]) token tokens)"

text \<open>\<open>chain([first_token], tokens)\<close> puts the first token back in front of the iterator.\<close>

definition parse_ruleset :: "(string \<Rightarrow> string) \<Rightarrow> token \<Rightarrow> token list
    \<Rightarrow> (exn + rule \<times> parse_error list) \<times> token list" where
  "parse_ruleset ul first_token tokens =
     parse_ruleset_loop ul first_token [] first_token (first_token # tokens)"

section \<open>Stylesheet driver\<close>

text \<open>
  An at-rule handler is called as \<open>parse_at_rule(self, rule, rules, errors)\<close>: it may append
  to the two lists, and it returns whether it handled the rule or raises. The model hands
  the lists back beside the outcome, so that what a handler appended before raising is
  kept, as the mutation is.
\<close>

type_synonym handler =
  "rule \<Rightarrow> rule list \<Rightarrow> parse_error list \<Rightarrow> (exn + bool) \<times> rule list \<times> parse_error list"

text \<open>
  The test \<open>len(rule.head) == 1 and rule.head[0].type == 'STRING' and
  rule.head[0].as_css[0] == '"' and not rule.body\<close>, evaluated left to right. A body, when
  there is one, is a token object and so counts as true.
\<close>

definition charset_ok :: "rule \<Rightarrow> exn + bool" where
  "charset_ok rule =
     (case rule_head rule of
        [h] \<Rightarrow>
          (if tok_type h = ''STRING'' then
             (case as_css h of
                [] \<Rightarrow> Inl IndexError
              | ch # rest \<Rightarrow> Inr (ch = CHR 0x22 \<and> rule_body rule = None))
           else Inr False)
      | _ \<Rightarrow> Inr False)"

text \<open>\<open>CoreParser.parse_at_rule\<close>: the only handler of the core parser.\<close>

definition parse_at_rule :: handler where
  "parse_at_rule rule stylesheet_rules errs =
     (if at_keyword rule = Some ''@charset'' then
        (if (rule_line rule, rule_column rule) = (1, 1) then
           (case charset_ok rule of
              Inl e \<Rightarrow> (Inl e, stylesheet_rules, errs)
            | Inr ok \<Rightarrow>
               (if \<not> ok then
                  (Inl (Raised (ParseError (OfRule rule) ''invalid @charset rule'')),
                   stylesheet_rules, errs)
                else (Inr True, stylesheet_rules, errs)))
         else
           (Inl (Raised (ParseError (OfRule rule)
                   ''@charset rule not at the beginning of the stylesheet'')),
            stylesheet_rules, errs))
      else (Inr False, stylesheet_rules, errs))"

text \<open>
  The \<open>for ... else\<close> loop over \<open>parse_at_rule_methods\<close>: the first handler that returns
  true stops it; when none does, the \<open>else\<close> branch records the unknown at-rule.
\<close>

fun run_handlers :: "handler list \<Rightarrow> rule \<Rightarrow> rule list \<Rightarrow> parse_error list
    \<Rightarrow> (exn + unit) \<times> rule list \<times> parse_error list" where
  "run_handlers [] rule rs errs =
     (case at_keyword rule of
        None \<Rightarrow> (Inl TypeError, rs, errs)
      | Some kw \<Rightarrow>
          (Inr (), rs, errs @ [ParseError (OfRule rule) (''unknown at-rule: '' @ kw)]))"
| "run_handlers (h # hs) rule rs errs =
     (case h rule rs errs of
        (Inl e, rs', errs') \<Rightarrow> (Inl e, rs', errs')
      | (Inr handled, rs', errs') \<Rightarrow>
          (if handled then (Inr (), rs', errs') else run_handlers hs rule rs' errs'))"

text \<open>The body of the \<open>try\<close> in \<open>parse_rules\<close>, for one token that is not skipped.\<close>

definition try_statement :: "(string \<Rightarrow> string) \<Rightarrow> handler list \<Rightarrow> token \<Rightarrow> token list \<Rightarrow> rule list
    \<Rightarrow> parse_error list \<Rightarrow> (exn + unit) \<times> rule list \<times> parse_error list \<times> token list" where
  "try_statement ul hs token tokens rs errs =
     (if tok_type token = ''ATKEYWORD'' then
        (case read_at_rule ul token tokens of
           (Inl e, rest) \<Rightarrow> (Inl e, rs, errs, rest)
         | (Inr rule, rest) \<Rightarrow>
             (case run_handlers hs rule rs errs of
                (r, rs', errs') \<Rightarrow> (r, rs', errs', rest)))
      else
        (case parse_ruleset ul token tokens of
           (Inl e, rest) \<Rightarrow> (Inl e, rs, errs, rest)
         | (Inr (rule, rule_errors), rest) \<Rightarrow>
             (Inr (), rs @ [rule], errs @ rule_errors, rest)))"

lemma read_at_rule_loop_rest:
  "length (snd (read_at_rule_loop kw a h p ts)) \<le> length ts"
proof (induction ts arbitrary: h p)
  case Nil
  then show ?case by simp
next
  case (Cons t ts)
  have "length (snd (read_at_rule_loop kw a (h @ [t]) t ts)) \<le> Suc (length ts)"
    and "length (snd (read_at_rule_loop kw a h t ts)) \<le> Suc (length ts)"
    using Cons.IH [of "h @ [t]" t] Cons.IH [of h t] by simp_all
  then show ?case
    by (auto split: sum.splits)
qed

lemma read_at_rule_rest: "length (snd (read_at_rule ul a ts)) \<le> length ts"
  by (simp add: read_at_rule_def read_at_rule_loop_rest split: sum.splits)

lemma parse_ruleset_loop_rest:
  "length (snd (parse_ruleset_loop ul f sp p ts)) \<le> length ts - 1"
proof (induction ts arbitrary: sp p)
  case Nil
  then show ?case by simp
next
  case (Cons t ts)
  have "length (snd (parse_ruleset_loop ul f (sp @ [t]) t ts)) \<le> length ts"
    using Cons.IH [of "sp @ [t]" t] by simp
  then show ?case
    by (auto simp: Let_def split: sum.splits prod.splits)
qed

lemma parse_ruleset_rest: "length (snd (parse_ruleset ul t ts)) \<le> length ts"
  using parse_ruleset_loop_rest [of ul t "[]" t "t # ts"] by (simp add: parse_ruleset_def)

lemma try_statement_rest:
  "try_statement ul hs t ts rs errs = (r, rs', errs', rest) \<Longrightarrow> length rest \<le> length ts"
  using read_at_rule_rest [of ul t ts] parse_ruleset_rest [of ul t ts]
  by (auto simp: try_statement_def split: if_splits sum.splits prod.splits)

text \<open>\<open>parse_rules\<close>: one pass over the iterator, with the lists \<open>rules\<close> and \<open>errors\<close>.\<close>

function parse_rules_loop :: "(string \<Rightarrow> string) \<Rightarrow> handler list \<Rightarrow> rule list \<Rightarrow> parse_error list \<Rightarrow> token list
    \<Rightarrow> exn + rule list \<times> parse_error list" where
  "parse_rules_loop ul hs rs errs [] = Inr (rs, errs)"
| "parse_rules_loop ul hs rs errs (token # tokens) =
     (if tok_type token \<notin> set [''S'', ''CDO'', ''CDC''] then
        (case try_statement ul hs token tokens rs errs of
           (r, rs', errs', rest) \<Rightarrow>
             (case r of
                Inr u \<Rightarrow> parse_rules_loop ul hs rs' errs' rest
              | Inl x \<Rightarrow>
                 (case x of
                    Raised e \<Rightarrow> parse_rules_loop ul hs rs' (errs' @ [e]) rest
                  | _ \<Rightarrow> Inl x)))
      else parse_rules_loop ul hs rs errs tokens)"
  by pat_completeness auto
termination
  by (relation "measure (\<lambda>(ul, hs, rs, errs, tokens). length tokens)")
     (auto dest: try_statement_rest [OF sym])

declare parse_rules_loop.simps [simp del]

text \<open>
  For a \<open>CoreParser\<close> the method list built from \<open>type(self).mro()\<close> holds its own
  \<open>parse_at_rule\<close> and nothing else. The two entry points take the tokenizer's output.
\<close>

definition parse_rules :: "(string \<Rightarrow> string) \<Rightarrow> token list \<Rightarrow> exn + rule list \<times> parse_error list" where
  "parse_rules ul tokens = parse_rules_loop ul [parse_at_rule] [] [] tokens"

definition parse_stylesheet :: "(string \<Rightarrow> string) \<Rightarrow> token list \<Rightarrow> exn + stylesheet" where
  "parse_stylesheet ul tokens =
     (case parse_rules ul tokens of
        Inl e \<Rightarrow> Inl e
      | Inr (rs, errs) \<Rightarrow> Inr (Stylesheet rs errs))"

definition parse_style_attr :: "(string \<Rightarrow> string) \<Rightarrow> token list \<Rightarrow> exn + css_declaration list \<times> parse_error list" where
  "parse_style_attr ul tokens = parse_declaration_list ul tokens"

section \<open>Concrete token streams\<close>

text \<open>The tokens of \<open>@charset "UTF-8";\<close> at the very start of a stylesheet (Scenario A).\<close>

definition scenario_a :: "token list" where
  "scenario_a =
     [Token ''ATKEYWORD'' ''@charset'' ''@charset'' 1 1,
      Token ''S'' '' '' '' '' 1 9,
      Token ''STRING'' ''UTF-8'' (CHR 0x22 # ''UTF-8'' @ [CHR 0x22]) 1 10,
      Token '';'' '';'' '';'' 1 17]"

definition scenario_a_rule :: rule where
  "scenario_a_rule =
     AtRule ''@charset''
       [Token ''STRING'' ''UTF-8'' (CHR 0x22 # ''UTF-8'' @ [CHR 0x22]) 1 10] None 1 1"

text \<open>
  The tokens of the same source after one leading space (Scenario B), and the rule that
  \<open>read_at_rule\<close> reads from them: it starts at column 2.
\<close>

definition scenario_b :: "token list" where
  "scenario_b =
     [Token ''S'' '' '' '' '' 1 1,
      Token ''ATKEYWORD'' ''@charset'' ''@charset'' 1 2,
      Token ''S'' '' '' '' '' 1 10,
      Token ''STRING'' ''UTF-8'' (CHR 0x22 # ''UTF-8'' @ [CHR 0x22]) 1 11,
      Token '';'' '';'' '';'' 1 18]"

definition scenario_b_rule :: rule where
  "scenario_b_rule =
     AtRule ''@charset''
       [Token ''STRING'' ''UTF-8'' (CHR 0x22 # ''UTF-8'' @ [CHR 0x22]) 1 11] None 1 2"

text \<open>The tokens of \<open>a { color: red;; invalid: ; font: 12px }\<close> (Scenario C).\<close>

definition scenario_c_block :: "token list" where
  "scenario_c_block =
     [Token ''S'' '' '' '' '' 1 4,
      Token ''IDENT'' ''color'' ''color'' 1 5,
      Token '':'' '':'' '':'' 1 10,
      Token ''S'' '' '' '' '' 1 11,
      Token ''IDENT'' ''red'' ''red'' 1 12,
      Token '';'' '';'' '';'' 1 15,
      Token '';'' '';'' '';'' 1 16,
      Token ''S'' '' '' '' '' 1 17,
      Token ''IDENT'' ''invalid'' ''invalid'' 1 18,
      Token '':'' '':'' '':'' 1 25,
      Token ''S'' '' '' '' '' 1 26,
      Token '';'' '';'' '';'' 1 27,
      Token ''S'' '' '' '' '' 1 28,
      Token ''IDENT'' ''font'' ''font'' 1 29,
      Token '':'' '':'' '':'' 1 33,
      Token ''S'' '' '' '' '' 1 34,
      Token ''DIMENSION'' ''12'' ''12px'' 1 35,
      Token ''S'' '' '' '' '' 1 39]"

definition scenario_c :: "token list" where
  "scenario_c =
     [Token ''IDENT'' ''a'' ''a'' 1 1,
      Token ''S'' '' '' '' '' 1 2,
      ContainerToken ''{'' ''{'' ''}'' scenario_c_block 1 3]"

text \<open>The tokens of the style attribute \<open>foo\<close>: a property name and nothing after it.\<close>

definition lone_name :: "token list" where
  "lone_name = [Token ''IDENT'' ''foo'' ''foo'' 1 1]"

text \<open>The tokens of the stylesheet \<open>a{foo}\<close>.\<close>

definition lone_name_sheet :: "token list" where
  "lone_name_sheet =
     [Token ''IDENT'' ''a'' ''a'' 1 1,
      ContainerToken ''{'' ''{'' ''}'' [Token ''IDENT'' ''foo'' ''foo'' 1 3] 1 2]"

text \<open>The tokens of the declaration list \<open>invalid: ; foo; color: red\<close>.\<close>

definition three_segments :: "token list" where
  "three_segments =
     [Token ''IDENT'' ''invalid'' ''invalid'' 1 1,
      Token '':'' '':'' '':'' 1 8,
      Token ''S'' '' '' '' '' 1 9,
      Token '';'' '';'' '';'' 1 10,
      Token ''S'' '' '' '' '' 1 11,
      Token ''IDENT'' ''foo'' ''foo'' 1 12,
      Token '';'' '';'' '';'' 1 15,
      Token ''S'' '' '' '' '' 1 16,
      Token ''IDENT'' ''color'' ''color'' 1 17,
      Token '':'' '':'' '':'' 1 22,
      Token ''S'' '' '' '' '' 1 23,
      Token ''IDENT'' ''red'' ''red'' 1 24]"

text \<open>The block token of \<open>{foo}\<close>: a declaration block with no selector before it.\<close>

definition bare_block :: token where
  "bare_block = ContainerToken ''{'' ''{'' ''}'' [Token ''IDENT'' ''foo'' ''foo'' 1 2] 1 1"

text \<open>The tokens of \<open>@foo };a{}\<close>: an at-rule with a stray brace in its head, then a rule set.\<close>

definition stray_brace_sheet :: "token list" where
  "stray_brace_sheet =
     [Token ''ATKEYWORD'' ''@foo'' ''@foo'' 1 1,
      Token ''S'' '' '' '' '' 1 5,
      Token ''}'' ''}'' ''}'' 1 6,
      Token '';'' '';'' '';'' 1 7,
      Token ''IDENT'' ''a'' ''a'' 1 8,
      ContainerToken ''{'' ''{'' ''}'' [] 1 9]"

text \<open>
  A case mapping that changes the ASCII letters only. It takes the place of the case
  tables in the statements about one concrete token stream: each of these streams is
  ASCII text, on which \<open>lower\<close> does not consult the tables.
\<close>

definition ascii_table :: "string \<Rightarrow> string" where
  "ascii_table s = map char_lower s"

section \<open>Notions of the specification\<close>

text \<open>
  A deviation of an \<open>@charset\<close> rule, in the words of the specification: it is not at
  position 1:1, or its head is not exactly one double-quoted string token, or it has a body.
\<close>

definition charset_deviation :: "rule \<Rightarrow> bool" where
  "charset_deviation rule \<longleftrightarrow>
     (rule_line rule, rule_column rule) \<noteq> (1, 1)
     \<or> \<not> (\<exists>h. rule_head rule = [h] \<and> tok_type h = ''STRING''
              \<and> take 1 (as_css h) = [CHR 0x22])
     \<or> rule_body rule \<noteq> None"

definition charset_reason :: "rule \<Rightarrow> string" where
  "charset_reason rule =
     (if (rule_line rule, rule_column rule) = (1, 1) then ''invalid @charset rule''
      else ''@charset rule not at the beginning of the stylesheet'')"

text \<open>
  The production in the words of the specification: a token whose type is one of the
  eleven listed, or a function, parenthesised or bracketed container whose content tokens
  all satisfy the production again.
\<close>

definition spec_any_types :: "string list" where
  "spec_any_types = [''IDENT'', ''DIMENSION'', ''PERCENTAGE'', ''NUMBER'', ''URI'', ''DELIM'',
                     ''STRING'', ''HASH'', '':'', ''UNICODE-RANGE'', ''S'']"

definition group_types :: "string list" where
  "group_types = [''FUNCTION'', ''('', ''['']"

fun any_production :: "token \<Rightarrow> bool" where
  "any_production (Token ty v css l c) \<longleftrightarrow> ty \<in> set spec_any_types"
| "any_production (ContainerToken ty s e content l c) \<longleftrightarrow>
     ty \<in> set spec_any_types
     \<or> (ty \<in> set group_types \<and> (\<forall>t\<in>set content. any_production t))"

text \<open>
  Modelled from the spec: the token stream is already grouped, so every token of an
  opening type (function, parenthesis, bracket, brace) is a container token, at every
  depth.
\<close>

fun grouped :: "token \<Rightarrow> bool" where
  "grouped (Token ty v css l c) \<longleftrightarrow> ty \<notin> set [''FUNCTION'', ''('', ''['', ''{'']"
| "grouped (ContainerToken ty s e content l c) \<longleftrightarrow> (\<forall>t\<in>set content. grouped t)"

text \<open>The reason of a grammar error on the token \<open>bad\<close> met in the context \<open>ctx\<close>.\<close>

definition tagged_reason :: "token \<Rightarrow> string \<Rightarrow> string" where
  "tagged_reason bad ctx =
     (if tok_type bad \<in> set [''}'', '')'', '']''] then ''unmatched'' else ''unexpected'')
       @ '' '' @ tok_type bad @ '' token in '' @ ctx"

text \<open>
  Modelled from the spec: token types are the names of the tokenizer's vocabulary. All
  that is used of it is that neither the empty string nor the two-character string \<open>{;\<close>
  is such a name: \<open>token.type in '{;'\<close> is a substring test, true of these two strings as
  well as of \<open>{\<close> and \<open>;\<close>.
\<close>

definition type_name :: "string \<Rightarrow> bool" where
  "type_name s \<longleftrightarrow> s \<noteq> [] \<and> s \<noteq> ''{;''"

text \<open>A token that ends an at-rule head, and a white space token.\<close>

definition ends_head :: "token \<Rightarrow> bool" where
  "ends_head t \<longleftrightarrow> tok_type t = ''{'' \<or> tok_type t = '';''"

definition is_space :: "token \<Rightarrow> bool" where
  "is_space t \<longleftrightarrow> tok_type t = ''S''"

text \<open>
  A value token is valid when it passes the check that \<open>parse_value\<close> applies to it:
  \<open>validate_block\<close> on the content of a \<open>{\<close> block, \<open>validate_any\<close> on any other token.
\<close>

definition value_token_ok :: "token \<Rightarrow> bool" where
  "value_token_ok t \<longleftrightarrow>
     (if tok_type t = ''{'' then
        (case get_content t of
           Inl e \<Rightarrow> False
         | Inr c \<Rightarrow> validate_block c ''property value'' = Inr ())
      else validate_any t ''property value'' = Inr ())"

text \<open>A token list without its leading and its trailing white space tokens.\<close>

definition trim_spaces :: "token list \<Rightarrow> token list" where
  "trim_spaces ts = rev (dropWhile is_space (rev (dropWhile is_space ts)))"

text \<open>
  Two properties of \<open>str.lower()\<close> on the strings with a non-ASCII character, stated of the
  parameter: a leading \<open>@\<close> stays in front, and a result is not changed by lower-casing it
  again.
\<close>

definition keeps_at :: "(string \<Rightarrow> string) \<Rightarrow> bool" where
  "keeps_at ul \<longleftrightarrow> (\<forall>s. \<exists>k. ul (CHR ''@'' # s) = CHR ''@'' # k)"

definition lowers_once :: "(string \<Rightarrow> string) \<Rightarrow> bool" where
  "lowers_once ul \<longleftrightarrow> (\<forall>s. \<not> is_ascii s \<longrightarrow> lower ul (ul s) = ul s)"

section \<open>Lemmas\<close>

lemma str_in_brace_semi:
  "str_in s ''{;'' \<longleftrightarrow> s = [] \<or> s = ''{'' \<or> s = '';'' \<or> s = ''{;''"
  by (cases s; cases "tl s"; cases "tl (tl s)") auto

lemma parse_rules_loop_skip:
  "tok_type token \<in> set [''S'', ''CDO'', ''CDC''] \<Longrightarrow>
   parse_rules_loop ul hs rs errs (token # tokens) = parse_rules_loop ul hs rs errs tokens"
  by (simp add: parse_rules_loop.simps)

lemma parse_rules_loop_raised:
  "tok_type token \<notin> set [''S'', ''CDO'', ''CDC''] \<Longrightarrow>
   try_statement ul hs token tokens rs errs = (Inl (Raised e), rs', errs', rest) \<Longrightarrow>
   parse_rules_loop ul hs rs errs (token # tokens) = parse_rules_loop ul hs rs' (errs' @ [e]) rest"
  by (simp add: parse_rules_loop.simps(2))

lemma parse_rules_loop_done:
  "tok_type token \<notin> set [''S'', ''CDO'', ''CDC''] \<Longrightarrow>
   try_statement ul hs token tokens rs errs = (Inr u, rs', errs', rest) \<Longrightarrow>
   parse_rules_loop ul hs rs errs (token # tokens) = parse_rules_loop ul hs rs' errs' rest"
  by (simp add: parse_rules_loop.simps(2))

lemma charset_handler_deviation:
  assumes "at_keyword rule = Some ''@charset''"
    and "\<forall>h\<in>set (rule_head rule). as_css h \<noteq> []"
    and "charset_deviation rule"
  shows "parse_at_rule rule rs errs =
     (Inl (Raised (ParseError (OfRule rule) (charset_reason rule))), rs, errs)"
  using assms
  unfolding parse_at_rule_def charset_ok_def charset_deviation_def charset_reason_def
  by (auto split: list.splits)

lemma charset_driver_deviation:
  assumes "tok_type tok = ''ATKEYWORD''"
    and "read_at_rule ul tok toks = (Inr rule, rest)"
    and "at_keyword rule = Some ''@charset''"
    and "\<forall>h\<in>set (rule_head rule). as_css h \<noteq> []"
    and "charset_deviation rule"
  shows "parse_rules_loop ul [parse_at_rule] rs errs (tok # toks) =
     parse_rules_loop ul [parse_at_rule] rs
       (errs @ [ParseError (OfRule rule) (charset_reason rule)]) rest"
proof -
  have "try_statement ul [parse_at_rule] tok toks rs errs =
      (Inl (Raised (ParseError (OfRule rule) (charset_reason rule))), rs, errs, rest)"
    using assms(1,2) charset_handler_deviation [OF assms(3,4,5)]
    by (simp add: try_statement_def)
  moreover have "tok_type tok \<notin> set [''S'', ''CDO'', ''CDC'']"
    using assms(1) by simp
  ultimately show ?thesis
    by (rule parse_rules_loop_raised [rotated])
qed

lemma set_any_types: "set any_types = set spec_any_types"
  by (auto simp: any_types_def spec_any_types_def)

lemma any_error_tagged: "any_error t ctx = Raised (ParseError (OfToken t) (tagged_reason t ctx))"
  by (simp add: any_error_def tagged_reason_def adjective_def)

lemma validate_any_iff:
  "(validate_any t ctx = Inr ()) = any_production t"
  "(validate_any_each ts ctx = Inr ()) = (\<forall>t\<in>set ts. any_production t)"
proof (induction t ctx and ts ctx rule: validate_any_validate_any_each.induct)
  case (1 ty v css l c ctx)
  then show ?case
    by (auto simp: set_any_types spec_any_types_def)
next
  case (2 ty s e content l c ctx)
  then show ?case
    by (auto simp: set_any_types spec_any_types_def group_types_def)
next
  case (3 ctx)
  then show ?case by simp
next
  case (4 token tokens ctx)
  then show ?case
    by (cases "validate_any token ctx") auto
qed

lemma validate_any_each_all:
  "(validate_any_each ts ctx = Inr ()) = (\<forall>t\<in>set ts. validate_any t ctx = Inr ())"
  by (simp add: validate_any_iff)

lemma validate_any_each_first:
  "\<forall>p\<in>set pre. validate_any p ctx = Inr () \<Longrightarrow> validate_any x ctx \<noteq> Inr () \<Longrightarrow>
   validate_any_each (pre @ x # post) ctx = validate_any x ctx"
  by (induction pre) (auto split: sum.splits)

lemma validate_any_leaf:
  "tok_type t \<notin> set spec_any_types \<Longrightarrow> tok_type t \<notin> set group_types \<Longrightarrow>
   validate_any t ctx = Inl (Raised (ParseError (OfToken t) (tagged_reason t ctx)))"
  by (cases t) (auto simp: set_any_types group_types_def any_error_tagged)

lemma validate_any_fails:
  "grouped t \<Longrightarrow> \<not> any_production t \<Longrightarrow>
   \<exists>bad c. validate_any t ctx = Inl (Raised (ParseError (OfToken bad) (tagged_reason bad c)))
      \<and> tok_type bad \<notin> set spec_any_types \<and> tok_type bad \<notin> set group_types"
  "\<forall>t\<in>set ts. grouped t \<Longrightarrow> \<not> (\<forall>t\<in>set ts. any_production t) \<Longrightarrow>
   \<exists>bad c. validate_any_each ts ctx = Inl (Raised (ParseError (OfToken bad) (tagged_reason bad c)))
      \<and> tok_type bad \<notin> set spec_any_types \<and> tok_type bad \<notin> set group_types"
proof (induction t ctx and ts ctx rule: validate_any_validate_any_each.induct)
  case (1 ty v css l c ctx)
  then show ?case
    using validate_any_leaf [of "Token ty v css l c" ctx]
    by (auto simp: group_types_def)
next
  case (2 ty s e content l c ctx)
  show ?case
  proof (cases "ty \<in> set group_types")
    case True
    then have "\<not> (\<forall>t\<in>set content. any_production t)"
      using "2.prems"(2) by simp
    moreover have "\<forall>t\<in>set content. grouped t"
      using "2.prems"(1) by simp
    ultimately show ?thesis
      using "2.IH" True by (simp add: group_types_def)
  next
    case False
    then show ?thesis
      using "2.prems"(2) validate_any_leaf [of "ContainerToken ty s e content l c" ctx]
      by auto
  qed
next
  case (3 ctx)
  then show ?case by simp
next
  case (4 token tokens ctx)
  show ?case
  proof (cases "any_production token")
    case True
    then have ok: "validate_any token ctx = Inr ()"
      by (simp add: validate_any_iff)
    have "\<not> (\<forall>t\<in>set tokens. any_production t)"
      using "4.prems"(2) True by simp
    then show ?thesis
      using "4.IH"(2) [OF ok] "4.prems"(1) ok by simp
  next
    case False
    then obtain bad c where
      "validate_any token ctx = Inl (Raised (ParseError (OfToken bad) (tagged_reason bad c)))"
      "tok_type bad \<notin> set spec_any_types" "tok_type bad \<notin> set group_types"
      using "4.IH"(1) "4.prems"(1) by auto
    then show ?thesis
      by auto
  qed
qed

lemma char_lower_not_upper:
  "\<not> (65 \<le> (of_char (char_lower c) :: nat) \<and> (of_char (char_lower c) :: nat) \<le> 90)"
  by (auto simp: char_lower_def Let_def)

lemma char_lower_idem: "char_lower (char_lower c) = char_lower c"
  using char_lower_not_upper [of c] by (auto simp: char_lower_def [of "char_lower c"] Let_def)

lemma is_ascii_char_lower: "(of_char (char_lower c) :: nat) < 128 \<longleftrightarrow> (of_char c :: nat) < 128"
  by (auto simp: char_lower_def Let_def)

lemma is_ascii_map_char_lower: "is_ascii (map char_lower s) = is_ascii s"
  by (simp add: is_ascii_def list_all_iff is_ascii_char_lower)

lemma lower_ascii: "is_ascii s \<Longrightarrow> lower ul s = map char_lower s"
  by (simp add: lower_def)

lemma lower_ascii_idem: "is_ascii s \<Longrightarrow> lower ul (lower ul s) = lower ul s"
  by (simp add: lower_def is_ascii_map_char_lower char_lower_idem)

lemma char_lower_at: "char_lower (CHR ''@'') = CHR ''@''"
  by (simp add: char_lower_def)

lemma read_at_rule_loop_keyword:
  "read_at_rule_loop kw a h p ts = (Inr rule, rest) \<Longrightarrow>
   \<exists>h' b. rule = AtRule kw h' b (tok_line a) (tok_column a)"
  by (induction ts arbitrary: h p) (auto split: sum.splits if_splits)

lemma parse_ruleset_loop_ruleset:
  "parse_ruleset_loop ul f sp p ts = (Inr (rule, errs), rest) \<Longrightarrow>
   \<exists>sel ds. rule = RuleSet sel ds (tok_line f) (tok_column f)"
  by (induction ts arbitrary: sp p) (auto simp: Let_def split: sum.splits if_splits prod.splits)

declare str_in.simps [simp del]

lemma str_in_ends_head: "type_name (tok_type t) \<Longrightarrow> str_in (tok_type t) ''{;'' = ends_head t"
  by (auto simp: str_in_brace_semi type_name_def ends_head_def)

lemma ends_head_str_in: "ends_head t \<Longrightarrow> str_in (tok_type t) ''{;''"
  by (auto simp: str_in_brace_semi ends_head_def)

lemma read_at_rule_loop_head:
  assumes "\<forall>x\<in>set pre. type_name (tok_type x) \<and> \<not> ends_head x" and "ends_head t"
  shows "read_at_rule_loop kw a h p (pre @ t # rest) =
     (case validate_any_each (if h = [] then dropWhile is_space pre else h @ pre)
             ''at-rule head'' of
        Inl e \<Rightarrow> (Inl e, rest)
      | Inr u \<Rightarrow>
          (Inr (AtRule kw (if h = [] then dropWhile is_space pre else h @ pre)
                  (if tok_type t = ''{'' then Some t else None) (tok_line a) (tok_column a)),
           rest))"
  using assms
proof (induction pre arbitrary: h p)
  case Nil
  then show ?case
    by (auto simp: ends_head_str_in cong: sum.case_cong)
next
  case (Cons x pre)
  have nx: "\<not> str_in (tok_type x) ''{;''"
    using Cons.prems(1) by (simp add: str_in_ends_head)
  have rest: "\<forall>x\<in>set pre. type_name (tok_type x) \<and> \<not> ends_head x"
    using Cons.prems(1) by simp
  show ?case
  proof (cases "h \<noteq> [] \<or> tok_type x \<noteq> ''S''")
    case True
    then show ?thesis
      using nx Cons.IH [OF rest Cons.prems(2), of "h @ [x]" x]
      by (auto simp: is_space_def cong: sum.case_cong)
  next
    case False
    then show ?thesis
      using nx Cons.IH [OF rest Cons.prems(2), of h x]
      by (auto simp: is_space_def cong: sum.case_cong)
  qed
qed

lemma read_at_rule_loop_incomplete:
  assumes "\<forall>x\<in>set toks. type_name (tok_type x) \<and> \<not> ends_head x"
  shows "read_at_rule_loop kw a h p toks =
     (Inl (Raised (ParseError (OfToken (last (p # toks))) ''incomplete at-rule'')), [])"
  using assms
proof (induction toks arbitrary: h p)
  case Nil
  then show ?case by simp
next
  case (Cons x toks)
  have nx: "\<not> str_in (tok_type x) ''{;''"
    using Cons.prems by (simp add: str_in_ends_head)
  have rest: "\<forall>x\<in>set toks. type_name (tok_type x) \<and> \<not> ends_head x"
    using Cons.prems by simp
  show ?case
    using nx Cons.IH [OF rest, of "h @ [x]" x] Cons.IH [OF rest, of h x]
    by auto
qed

text \<open>
  The core handler never touches the two lists, so a run of the driver from any lists is
  the run from empty lists with its results appended.
\<close>

lemma run_handlers_core:
  "run_handlers [parse_at_rule] rule rs errs =
     (case run_handlers [parse_at_rule] rule [] [] of
        (r, dr, de) \<Rightarrow> (r, rs @ dr, errs @ de))"
  by (simp add: parse_at_rule_def split: sum.splits option.splits)

lemma try_statement_core:
  "try_statement ul [parse_at_rule] t ts rs errs =
     (case try_statement ul [parse_at_rule] t ts [] [] of
        (r, dr, de, rest) \<Rightarrow> (r, rs @ dr, errs @ de, rest))"
  unfolding try_statement_def
  using run_handlers_core [of _ rs errs]
  by (auto split: prod.splits sum.splits)

lemma parse_rules_loop_core:
  "parse_rules_loop ul [parse_at_rule] rs errs toks =
     (case parse_rules_loop ul [parse_at_rule] [] [] toks of
        Inl x \<Rightarrow> Inl x
      | Inr (r, e) \<Rightarrow> Inr (rs @ r, errs @ e))"
proof (induction toks arbitrary: rs errs rule: length_induct)
  case (1 toks)
  show ?case
  proof (cases toks)
    case Nil
    then show ?thesis
      by (simp add: parse_rules_loop.simps)
  next
    case (Cons t ts)
    show ?thesis
    proof (cases "tok_type t \<in> set [''S'', ''CDO'', ''CDC'']")
      case True
      have "length ts < length toks"
        using Cons by simp
      then show ?thesis
        using "1.IH" Cons parse_rules_loop_skip [OF True] by simp
    next
      case False
      obtain r dr de rest where ts0: "try_statement ul [parse_at_rule] t ts [] [] = (r, dr, de, rest)"
        by (cases "try_statement ul [parse_at_rule] t ts [] []") auto
      have ts1: "try_statement ul [parse_at_rule] t ts rs errs = (r, rs @ dr, errs @ de, rest)"
        using try_statement_core [of ul t ts rs errs] ts0 by simp
      have len: "length rest < length toks"
        using try_statement_rest [OF ts0] Cons by simp
      have ih: "parse_rules_loop ul [parse_at_rule] a b rest =
         (case parse_rules_loop ul [parse_at_rule] [] [] rest of
            Inl x \<Rightarrow> Inl x
          | Inr (r, e) \<Rightarrow> Inr (a @ r, b @ e))" for a b
        using "1.IH" len by blast
      show ?thesis
      proof (cases r)
        case (Inr u)
        have "parse_rules_loop ul [parse_at_rule] rs errs toks =
            parse_rules_loop ul [parse_at_rule] (rs @ dr) (errs @ de) rest"
          using parse_rules_loop_done [OF False] ts1 Inr Cons by simp
        moreover have "parse_rules_loop ul [parse_at_rule] [] [] toks =
            parse_rules_loop ul [parse_at_rule] dr de rest"
          using parse_rules_loop_done [OF False] ts0 Inr Cons by simp
        ultimately show ?thesis
          using ih [of "rs @ dr" "errs @ de"] ih [of dr de]
          by (auto split: sum.splits)
      next
        case (Inl x)
        show ?thesis
        proof (cases x)
          case (Raised e)
          have "parse_rules_loop ul [parse_at_rule] rs errs toks =
              parse_rules_loop ul [parse_at_rule] (rs @ dr) ((errs @ de) @ [e]) rest"
            using parse_rules_loop_raised [OF False] ts1 Inl Raised Cons by simp
          moreover have "parse_rules_loop ul [parse_at_rule] [] [] toks =
              parse_rules_loop ul [parse_at_rule] dr (de @ [e]) rest"
            using parse_rules_loop_raised [OF False] ts0 Inl Raised Cons by simp
          ultimately show ?thesis
            using ih [of "rs @ dr" "(errs @ de) @ [e]"] ih [of dr "de @ [e]"]
            by (auto split: sum.splits)
        qed (use False ts0 ts1 Inl Cons in \<open>simp_all add: parse_rules_loop.simps(2)\<close>)
      qed
    qed
  qed
qed

lemma read_at_rule_loop_rest_eq:
  assumes "\<forall>x\<in>set toks. type_name (tok_type x)"
  shows "snd (read_at_rule_loop kw a h p toks) = drop 1 (dropWhile (\<lambda>x. \<not> ends_head x) toks)"
  using assms
proof (induction toks arbitrary: h p)
  case Nil
  then show ?case by simp
next
  case (Cons x toks)
  have "str_in (tok_type x) ''{;'' = ends_head x"
    using Cons.prems by (simp add: str_in_ends_head)
  moreover have "\<forall>x\<in>set toks. type_name (tok_type x)"
    using Cons.prems by simp
  ultimately show ?case
    using Cons.IH by (auto split: sum.splits)
qed

lemma read_at_rule_rest_eq:
  assumes "read_at_rule ul tok toks = (Inl (Raised e), rest)"
    and "\<forall>x\<in>set toks. type_name (tok_type x)"
  shows "rest = drop 1 (dropWhile (\<lambda>x. \<not> ends_head x) toks)"
proof (cases tok)
  case (Token ty v css l c)
  then show ?thesis
    using assms(1) read_at_rule_loop_rest_eq [OF assms(2), of "lower ul v" tok "[]" tok]
    by (simp add: read_at_rule_def)
next
  case (ContainerToken ty s e' content l c)
  then show ?thesis
    using assms(1) by (simp add: read_at_rule_def)
qed

lemma parse_ruleset_loop_rest_eq:
  "snd (parse_ruleset_loop ul f sp p ts) = drop 1 (dropWhile (\<lambda>x. tok_type x \<noteq> ''{'') ts)"
  by (induction ts arbitrary: sp p) (auto simp: Let_def split: sum.splits prod.splits)

lemma parse_ruleset_rest_eq:
  "parse_ruleset ul tok toks = (r, rest) \<Longrightarrow>
   rest = drop 1 (dropWhile (\<lambda>x. tok_type x \<noteq> ''{'') (tok # toks))"
  using parse_ruleset_loop_rest_eq [of ul tok "[]" tok "tok # toks"]
  by (simp add: parse_ruleset_def)

lemma try_statement_at_rule_raised:
  "tok_type tok = ''ATKEYWORD'' \<Longrightarrow> read_at_rule ul tok toks = (Inl (Raised e), rest) \<Longrightarrow>
   try_statement ul hs tok toks rs errs = (Inl (Raised e), rs, errs, rest)"
  by (simp add: try_statement_def)

lemma try_statement_ruleset_raised:
  "tok_type tok \<noteq> ''ATKEYWORD'' \<Longrightarrow> parse_ruleset ul tok toks = (Inl (Raised e), rest) \<Longrightarrow>
   try_statement ul hs tok toks rs errs = (Inl (Raised e), rs, errs, rest)"
  by (simp add: try_statement_def)

lemma driver_step_raised:
  assumes "tok_type tok \<notin> set [''S'', ''CDO'', ''CDC'']"
    and "try_statement ul hs tok toks rs errs = (Inl (Raised e), rs, errs, rest)"
  shows "parse_rules_loop ul hs rs errs (tok # toks) = parse_rules_loop ul hs rs (errs @ [e]) rest"
  using parse_rules_loop_raised [OF assms] .

lemma driver_core_after:
  "parse_rules_loop ul [parse_at_rule] rs (errs @ [e]) rest =
     (case parse_rules ul rest of
        Inl x \<Rightarrow> Inl x
      | Inr (r, es) \<Rightarrow> Inr (rs @ r, errs @ e # es))"
  using parse_rules_loop_core [of ul rs "errs @ [e]" rest]
  by (simp add: parse_rules_def split: sum.splits)

lemma value_token_ok_check:
  "value_token_ok t \<Longrightarrow>
   (if tok_type t = ''{'' then
      (case get_content t of
         Inl e \<Rightarrow> Inl e
       | Inr c \<Rightarrow> validate_block c ''property value'')
    else validate_any t ''property value'') = Inr ()"
  by (auto simp: value_token_ok_def split: sum.splits)

lemma value_token_ok_not_semi: "value_token_ok t \<Longrightarrow> tok_type t \<noteq> '';''"
  by (cases t) (auto simp: value_token_ok_def any_types_def)

lemma parse_value_loop_ok:
  assumes "\<forall>x\<in>set vs. value_token_ok x"
  shows "parse_value_loop content vs =
     Inr (if content = [] then dropWhile is_space vs else content @ vs)"
  using assms
proof (induction vs arbitrary: content)
  case Nil
  then show ?case by simp
next
  case (Cons x vs)
  have ok: "(if tok_type x = ''{'' then
      (case get_content x of
         Inl e \<Rightarrow> Inl e
       | Inr c \<Rightarrow> validate_block c ''property value'')
    else validate_any x ''property value'') = Inr ()"
    using Cons.prems value_token_ok_check by simp
  have rest: "\<forall>x\<in>set vs. value_token_ok x"
    using Cons.prems by simp
  show ?case
  proof (cases "content \<noteq> [] \<or> tok_type x \<noteq> ''S''")
    case True
    then show ?thesis
      using Cons.IH [OF rest, of "content @ [x]"]
      by (simp only: parse_value_loop.simps ok) (auto simp: is_space_def)
  next
    case False
    then show ?thesis
      using Cons.IH [OF rest, of content]
      by (simp only: parse_value_loop.simps) (auto simp: is_space_def)
  qed
qed

lemma pop_spaces_snoc:
  "pop_spaces (xs @ [x]) = (if tok_type x = ''S'' then pop_spaces xs else xs @ [x])"
  by (subst pop_spaces.simps) simp

lemma pop_spaces_rev: "pop_spaces xs = rev (dropWhile is_space (rev xs))"
proof (induction xs rule: rev_induct)
  case Nil
  then show ?case
    by (subst pop_spaces.simps) simp
next
  case (snoc x xs)
  then show ?case
    by (simp add: pop_spaces_snoc is_space_def)
qed

lemma parse_value_ok:
  "\<forall>x\<in>set vs. value_token_ok x \<Longrightarrow> parse_value vs = Inr (trim_spaces vs)"
  by (simp add: parse_value_def parse_value_loop_ok pop_spaces_rev trim_spaces_def)

lemma trim_spaces_nonempty: "\<exists>x\<in>set vs. \<not> is_space x \<Longrightarrow> trim_spaces vs \<noteq> []"
proof -
  assume a: "\<exists>x\<in>set vs. \<not> is_space x"
  then have "dropWhile is_space vs \<noteq> []"
    by (simp add: dropWhile_eq_Nil_conv)
  then obtain y where y: "y \<in> set (dropWhile is_space vs)" "\<not> is_space y"
    using hd_dropWhile [of is_space vs] hd_in_set by blast
  then have "dropWhile is_space (rev (dropWhile is_space vs)) \<noteq> []"
    by (auto simp: dropWhile_eq_Nil_conv)
  then show ?thesis
    by (simp add: trim_spaces_def)
qed

lemma find_colon_spaces:
  "\<forall>w\<in>set ws. is_space w \<Longrightarrow> tok_type colon = '':'' \<Longrightarrow>
   find_colon prev (ws @ colon # vs) = Inr (colon, vs)"
  by (induction ws arbitrary: prev) (auto simp: is_space_def)

lemma split_parts_segment:
  assumes "\<forall>x\<in>set seg. tok_type x \<noteq> '';''" and "tok_type semi = '';''"
  shows "split_parts parts this (seg @ semi # rest) =
     split_parts
       (if (if this = [] then dropWhile is_space seg else this @ seg) \<noteq> []
        then parts @ [if this = [] then dropWhile is_space seg else this @ seg] else parts)
       [] rest"
  using assms
proof (induction seg arbitrary: this)
  case Nil
  then show ?case by simp
next
  case (Cons x seg)
  have rest: "\<forall>x\<in>set seg. tok_type x \<noteq> '';''" and nx: "tok_type x \<noteq> '';''"
    using Cons.prems(1) by simp_all
  show ?case
  proof (cases "this \<noteq> [] \<or> tok_type x \<noteq> ''S''")
    case True
    then show ?thesis
      using nx Cons.IH [OF rest Cons.prems(2), of "this @ [x]"]
      by (auto simp: is_space_def)
  next
    case False
    then show ?thesis
      using nx Cons.IH [OF rest Cons.prems(2), of this]
      by (auto simp: is_space_def)
  qed
qed

text \<open>Scenario C: one rule set with the declarations \<open>color\<close> and \<open>font\<close>, and one error.\<close>

lemma scenario_c_parsed:
  "parse_stylesheet ul scenario_c =
     Inr (Stylesheet
       [RuleSet
          (ContainerToken ''SELECTOR'' [] []
             [Token ''IDENT'' ''a'' ''a'' 1 1, Token ''S'' '' '' '' '' 1 2] 1 1)
          [Declaration ''color''
             (ContainerToken ''VALUES'' [] [] [Token ''IDENT'' ''red'' ''red'' 1 12] 1 12) 1 5,
           Declaration ''font''
             (ContainerToken ''VALUES'' [] [] [Token ''DIMENSION'' ''12'' ''12px'' 1 35] 1 35)
             1 29]
          1 1]
       [ParseError (OfToken (Token '':'' '':'' '':'' 1 25)) ''expected a property value''])"
  by code_simp

text \<open>
  A block with no selector before it: \<open>parse_ruleset\<close> gives what the declaration list of
  its content gives, under an empty selector container placed at the block.
\<close>

lemma parse_ruleset_block_first:
  "parse_ruleset ul (ContainerToken ''{'' s e content l c) toks =
     (case parse_declaration_list ul content of
        Inl x \<Rightarrow> (Inl x, toks)
      | Inr (ds, es) \<Rightarrow>
          (Inr (RuleSet (ContainerToken ''SELECTOR'' [] [] [] l c) ds l c, es), toks))"
  by (simp add: parse_ruleset_def split: sum.splits)

lemma keeps_at_ascii_table: "keeps_at ascii_table"
  by (simp add: keeps_at_def ascii_table_def char_lower_at)

lemma lowers_once_ascii_table: "lowers_once ascii_table"
  by (simp add: lowers_once_def lower_def ascii_table_def is_ascii_map_char_lower
      char_lower_idem)

lemma lower_keeps_at: "keeps_at ul \<Longrightarrow> \<exists>k. lower ul (CHR ''@'' # s) = CHR ''@'' # k"
  by (auto simp: lower_def keeps_at_def char_lower_at)

lemma lower_idem: "lowers_once ul \<Longrightarrow> lower ul (lower ul s) = lower ul s"
  by (cases "is_ascii s") (simp_all add: lower_ascii_idem lowers_once_def, simp add: lower_def)

lemma read_at_rule_keyword:
  assumes "read_at_rule ul tok toks = (Inr rule, rest)"
  shows "get_value tok = Inr (tok_value tok)
    \<and> at_keyword rule = Some (lower ul (tok_value tok))"
proof (cases tok)
  case (Token ty v css l c)
  then show ?thesis
    using read_at_rule_loop_keyword [of "lower ul v" tok "[]" tok toks rule rest] assms
    by (auto simp: read_at_rule_def)
next
  case (ContainerToken ty s e content l c)
  then show ?thesis
    using assms by (simp add: read_at_rule_def)
qed

text \<open>Scenario A, whatever the case tables: no rule and no error.\<close>

lemma scenario_a_parsed: "parse_stylesheet ul scenario_a = Inr (Stylesheet [] [])"
  by code_simp

section \<open>Claims\<close>

subsection \<open>C1\<close>

text \<open>
  C1. The claim: no exception escapes \<open>parse_stylesheet\<close> and \<open>parse_style_attr\<close>. The code
  breaks it. In \<open>parse_declaration\<close> the loop variable \<open>token\<close> is read by the \<open>else\<close> branch
  of the \<open>for\<close> loop, and a declaration that is a lone property name leaves the loop without
  an iteration: Python raises \<open>UnboundLocalError\<close>, which no \<open>except ParseError\<close> catches.
  The theorem evaluates both entry points on such inputs: the style attribute \<open>foo\<close> and
  the stylesheet \<open>a{foo}\<close>. (\<open>read_at_rule\<close> sets \<open>token\<close> before its loop for this very
  case.)
\<close>

theorem unbound_local_escapes:
  "parse_style_attr ul lone_name = Inl UnboundLocalError
   \<and> parse_stylesheet ul lone_name_sheet = Inl UnboundLocalError"
  by code_simp

subsection \<open>C2\<close>

text \<open>
  C2, as stated, fails in its first half: for \<open>@charset "UTF-8";\<close> at 1:1 the returned
  stylesheet holds no rule at all. The handler claims the rule by returning true and
  appends nothing. The stream is ASCII text, so the case tables play no part
  (\<open>scenario_a_parsed\<close> has the same for every table).
\<close>

theorem scenario_a_has_no_rule:
  "parse_stylesheet ascii_table scenario_a = Inr (Stylesheet [] [])"
  by (rule scenario_a_parsed)

text \<open>
  C2, amended. For \<open>@charset "UTF-8";\<close> at 1:1, \<open>parse_stylesheet\<close> returns no rule and no
  error: \<open>read_at_rule\<close> yields the at-rule, and the charset handler claims it and leaves
  both lists as they are. For an \<open>@charset\<close> rule that deviates (not at 1:1, head not
  exactly one double-quoted string token, or a body present; every head token rendering
  some text) the handler raises a \<open>ParseError\<close> whose reason is not the unknown-at-rule
  one, and the driver appends exactly that error and goes on with the rest of the stream.
\<close>

theorem charset_claimed:
  "parse_stylesheet ul scenario_a = Inr (Stylesheet [] [])
   \<and> read_at_rule ul (hd scenario_a) (tl scenario_a) = (Inr scenario_a_rule, [])
   \<and> parse_at_rule scenario_a_rule rs errs = (Inr True, rs, errs)
   \<and> (\<forall>rule. at_keyword rule = Some ''@charset''
           \<and> (\<forall>h\<in>set (rule_head rule). as_css h \<noteq> [])
           \<and> charset_deviation rule \<longrightarrow>
         parse_at_rule rule rs errs =
           (Inl (Raised (ParseError (OfRule rule) (charset_reason rule))), rs, errs)
         \<and> charset_reason rule \<noteq> ''unknown at-rule: @charset''
         \<and> (\<forall>tok toks rest. tok_type tok = ''ATKEYWORD''
               \<and> read_at_rule ul tok toks = (Inr rule, rest) \<longrightarrow>
             parse_rules_loop ul [parse_at_rule] rs errs (tok # toks) =
               parse_rules_loop ul [parse_at_rule] rs
                 (errs @ [ParseError (OfRule rule) (charset_reason rule)]) rest))"
proof -
  have a: "parse_stylesheet ul scenario_a = Inr (Stylesheet [] [])"
    by code_simp
  have b: "read_at_rule ul (hd scenario_a) (tl scenario_a) = (Inr scenario_a_rule, [])"
    by code_simp
  have c: "parse_at_rule scenario_a_rule rs errs = (Inr True, rs, errs)"
    by (simp add: parse_at_rule_def charset_ok_def scenario_a_rule_def)
  have d: "charset_reason rule \<noteq> ''unknown at-rule: @charset''" for rule
    by (simp add: charset_reason_def)
  show ?thesis
    using a b c d charset_handler_deviation charset_driver_deviation
    by blast
qed

theorem charset_claimed_witness:
  "at_keyword scenario_b_rule = Some ''@charset''
   \<and> charset_deviation scenario_b_rule
   \<and> parse_at_rule scenario_b_rule [] [] =
       (Inl (Raised (ParseError (OfRule scenario_b_rule)
          ''@charset rule not at the beginning of the stylesheet'')), [], [])
   \<and> read_at_rule ascii_table (hd (tl scenario_b)) (tl (tl scenario_b)) = (Inr scenario_b_rule, [])
   \<and> parse_rules_loop ascii_table [parse_at_rule] [] [] (tl scenario_b) =
       Inr ([], [ParseError (OfRule scenario_b_rule)
                   ''@charset rule not at the beginning of the stylesheet''])"
proof -
  have h: "at_keyword scenario_b_rule = Some ''@charset''
      \<and> (\<forall>h\<in>set (rule_head scenario_b_rule). as_css h \<noteq> [])
      \<and> charset_deviation scenario_b_rule"
    by (simp add: scenario_b_rule_def charset_deviation_def)
  have r: "charset_reason scenario_b_rule =
      ''@charset rule not at the beginning of the stylesheet''"
    by (simp add: scenario_b_rule_def charset_reason_def)
  have rd: "read_at_rule ascii_table (hd (tl scenario_b)) (tl (tl scenario_b)) = (Inr scenario_b_rule, [])"
    by code_simp
  have ty: "tok_type (hd (tl scenario_b)) = ''ATKEYWORD''"
    by (simp add: scenario_b_def)
  have sh: "hd (tl scenario_b) # tl (tl scenario_b) = tl scenario_b"
    by (simp add: scenario_b_def)
  have dr: "parse_rules_loop ascii_table [parse_at_rule] [] [] (hd (tl scenario_b) # tl (tl scenario_b)) =
      parse_rules_loop ascii_table [parse_at_rule] []
        ([] @ [ParseError (OfRule scenario_b_rule) (charset_reason scenario_b_rule)]) []"
    using charset_claimed [of ascii_table "[]" "[]"] h rd ty by blast
  from charset_claimed [of ascii_table "[]" "[]"] h r rd dr show ?thesis
    by (simp add: sh parse_rules_loop.simps(1))
qed

subsection \<open>C3\<close>

text \<open>
  C3, as stated, fails on the empty sequence: \<open>next(tokens)\<close> raises \<open>StopIteration\<close>, not a
  \<open>ParseError\<close>. The docstring asks for at least one token, and \<open>parse_declaration_list\<close>
  never passes an empty part. Nothing is lower-cased on the way, so the case tables play
  no part.
\<close>

theorem empty_declaration_stops:
  "parse_declaration ascii_table [] = Inl StopIteration"
  by simp

text \<open>
  C3, amended. For every non-empty token sequence given to \<open>parse_declaration\<close>: if its
  first token is not an identifier, the call fails with exactly the \<open>ParseError\<close> on that
  token whose reason is \<open>expected a property name, got\<close> followed by the token's type; if the
  first token is an identifier and a declaration is returned, its name is the token's
  value lower-cased by \<open>str.lower()\<close>.
\<close>

theorem property_name_check:
  "(tok_type t \<noteq> ''IDENT'' \<longrightarrow>
      parse_declaration ul (t # ts) =
        Inl (Raised (ParseError (OfToken t) (''expected a property name, got '' @ tok_type t))))
   \<and> (tok_type t = ''IDENT'' \<and> parse_declaration ul (t # ts) = Inr d \<longrightarrow>
        get_value t = Inr (tok_value t) \<and> decl_name d = lower ul (tok_value t))"
  by (cases t) (auto split: sum.splits list.splits)

theorem property_name_check_witness:
  "parse_declaration ascii_table [Token ''S'' '' '' '' '' 1 1] =
     Inl (Raised (ParseError (OfToken (Token ''S'' '' '' '' '' 1 1))
            ''expected a property name, got S''))
   \<and> parse_declaration ascii_table
        [Token ''IDENT'' ''Color'' ''Color'' 1 1, Token '':'' '':'' '':'' 1 6,
         Token ''IDENT'' ''red'' ''red'' 1 7] =
       Inr (Declaration ''color''
              (ContainerToken ''VALUES'' [] [] [Token ''IDENT'' ''red'' ''red'' 1 7] 1 7) 1 1)
   \<and> lower ascii_table (tok_value (Token ''IDENT'' ''Color'' ''Color'' 1 1)) = ''color''"
proof -
  let ?d = "Declaration ''color''
      (ContainerToken ''VALUES'' [] [] [Token ''IDENT'' ''red'' ''red'' 1 7] 1 7) 1 1"
  have p: "parse_declaration ascii_table
        [Token ''IDENT'' ''Color'' ''Color'' 1 1, Token '':'' '':'' '':'' 1 6,
         Token ''IDENT'' ''red'' ''red'' 1 7] = Inr ?d"
    by code_simp
  have a: "parse_declaration ascii_table [Token ''S'' '' '' '' '' 1 1] =
     Inl (Raised (ParseError (OfToken (Token ''S'' '' '' '' '' 1 1))
            ''expected a property name, got S''))"
    using property_name_check [where t = "Token ''S'' '' '' '' '' 1 1" and ts = "[]" and ul = ascii_table]
    by simp
  have b: "lower ascii_table (tok_value (Token ''IDENT'' ''Color'' ''Color'' 1 1)) = ''color''"
    using p property_name_check [where t = "Token ''IDENT'' ''Color'' ''Color'' 1 1"
        and ts = "[Token '':'' '':'' '':'' 1 6, Token ''IDENT'' ''red'' ''red'' 1 7]"
        and d = ?d and ul = ascii_table]
    by simp
  show ?thesis
    using a b p by simp
qed

subsection \<open>C4\<close>

text \<open>
  C4. \<open>validate_any\<close> succeeds exactly on the tokens of the \<open>any\<close> production, whatever the
  context. In a function, parenthesised or bracketed container the content is checked
  with the container's type as context, and the first content token that fails decides
  the result. A token of any other type fails with the \<open>ParseError\<close> on that token,
  tagged \<open>unmatched\<close> for a closing brace, parenthesis or bracket and \<open>unexpected\<close>
  otherwise; and on a grouped token stream every failure is such an error, on the
  offending token (which may lie inside containers).
\<close>

theorem validate_any_production:
  "(validate_any t ctx = Inr () \<longleftrightarrow> any_production t)
   \<and> (ty \<in> set group_types \<and> (\<forall>p\<in>set pre. validate_any p ty = Inr ())
        \<and> validate_any x ty \<noteq> Inr () \<longrightarrow>
      validate_any (ContainerToken ty s e (pre @ x # post) l c) ctx = validate_any x ty)
   \<and> (tok_type t \<notin> set spec_any_types \<and> tok_type t \<notin> set group_types \<longrightarrow>
      validate_any t ctx = Inl (Raised (ParseError (OfToken t) (tagged_reason t ctx))))
   \<and> (grouped t \<and> \<not> any_production t \<longrightarrow>
      (\<exists>bad c'. validate_any t ctx =
           Inl (Raised (ParseError (OfToken bad) (tagged_reason bad c')))
         \<and> tok_type bad \<notin> set spec_any_types \<and> tok_type bad \<notin> set group_types))"
proof -
  have "validate_any (ContainerToken ty s e (pre @ x # post) l c) ctx = validate_any x ty"
    if "ty \<in> set group_types" "\<forall>p\<in>set pre. validate_any p ty = Inr ()"
      "validate_any x ty \<noteq> Inr ()"
    using that validate_any_each_first [of pre ty x post]
    by (simp add: group_types_def)
  then show ?thesis
    using validate_any_iff(1) [of t ctx] validate_any_leaf [of t ctx]
      validate_any_fails(1) [of t ctx]
    by blast
qed

theorem validate_any_production_witness:
  "any_production (Token ''IDENT'' ''a'' ''a'' 1 3)
   \<and> validate_any (Token ''IDENT'' ''a'' ''a'' 1 3) ''selector'' = Inr ()
   \<and> validate_any
        (ContainerToken ''FUNCTION'' ''f('' '')''
           [Token ''IDENT'' ''a'' ''a'' 1 3, Token ''}'' ''}'' ''}'' 1 4] 1 1) ''selector'' =
       Inl (Raised (ParseError (OfToken (Token ''}'' ''}'' ''}'' 1 4))
              ''unmatched } token in FUNCTION''))"
proof -
  let ?good = "Token ''IDENT'' ''a'' ''a'' 1 3"
  let ?bad = "Token ''}'' ''}'' ''}'' 1 4"
  have g: "any_production ?good"
    by (simp add: spec_any_types_def)
  have a: "validate_any ?good ctx = Inr ()" for ctx
    using g validate_any_production [of ?good ctx] by simp
  have leaf: "validate_any ?bad ''FUNCTION'' =
      Inl (Raised (ParseError (OfToken ?bad) (tagged_reason ?bad ''FUNCTION'')))"
    using validate_any_production [of ?bad "''FUNCTION''"]
    by (simp add: spec_any_types_def group_types_def)
  have b: "validate_any (ContainerToken ''FUNCTION'' ''f('' '')'' ([?good] @ ?bad # []) 1 1)
      ''selector'' = validate_any ?bad ''FUNCTION''"
    using leaf a [of "''FUNCTION''"]
      validate_any_production [of _ _ "''FUNCTION''" "[?good]" ?bad]
    by (simp add: group_types_def)
  show ?thesis
    using g a [of "''selector''"] b leaf by (simp add: tagged_reason_def)
qed

subsection \<open>C5\<close>

text \<open>
  C5. When \<open>read_at_rule\<close> (on an at-keyword token) or \<open>parse_ruleset\<close> (on any other
  token that is not skipped) fails with a \<open>ParseError\<close>, the driver goes on with the
  tokens the reader left, with the same rules and that one error appended. The reader
  left what follows the first \<open>{\<close> or \<open>;\<close> (at-rule) or the first \<open>{\<close> block (rule set);
  nothing, when there is none. For the core parser the result of the whole run is then
  the rules collected before, followed by the rules of the remaining tokens: the error
  takes no other rule away.
\<close>

theorem driver_recovers:
  "(tok_type tok = ''ATKEYWORD'' \<and> read_at_rule ul tok toks = (Inl (Raised e), rest) \<longrightarrow>
      parse_rules_loop ul hs rs errs (tok # toks) = parse_rules_loop ul hs rs (errs @ [e]) rest
      \<and> ((\<forall>x\<in>set toks. type_name (tok_type x)) \<longrightarrow>
           rest = drop 1 (dropWhile (\<lambda>x. \<not> ends_head x) toks))
      \<and> parse_rules_loop ul [parse_at_rule] rs errs (tok # toks) =
          (case parse_rules ul rest of
             Inl x \<Rightarrow> Inl x
           | Inr (r, es) \<Rightarrow> Inr (rs @ r, errs @ e # es)))
   \<and> (tok_type tok \<notin> set [''S'', ''CDO'', ''CDC'', ''ATKEYWORD'']
        \<and> parse_ruleset ul tok toks = (Inl (Raised e), rest) \<longrightarrow>
      parse_rules_loop ul hs rs errs (tok # toks) = parse_rules_loop ul hs rs (errs @ [e]) rest
      \<and> rest = drop 1 (dropWhile (\<lambda>x. tok_type x \<noteq> ''{'') (tok # toks))
      \<and> parse_rules_loop ul [parse_at_rule] rs errs (tok # toks) =
          (case parse_rules ul rest of
             Inl x \<Rightarrow> Inl x
           | Inr (r, es) \<Rightarrow> Inr (rs @ r, errs @ e # es)))"
proof -
  have step: "parse_rules_loop ul hs' rs errs (tok # toks) = parse_rules_loop ul hs' rs (errs @ [e]) rest"
    if "tok_type tok = ''ATKEYWORD''" "read_at_rule ul tok toks = (Inl (Raised e), rest)" for hs'
    using driver_step_raised [OF _ try_statement_at_rule_raised [OF that]] that(1) by simp
  have step': "parse_rules_loop ul hs' rs errs (tok # toks) = parse_rules_loop ul hs' rs (errs @ [e]) rest"
    if "tok_type tok \<notin> set [''S'', ''CDO'', ''CDC'', ''ATKEYWORD'']"
      "parse_ruleset ul tok toks = (Inl (Raised e), rest)" for hs'
  proof -
    have "tok_type tok \<noteq> ''ATKEYWORD''" "tok_type tok \<notin> set [''S'', ''CDO'', ''CDC'']"
      using that(1) by simp_all
    then show ?thesis
      using driver_step_raised [OF _ try_statement_ruleset_raised [OF _ that(2)]] by simp
  qed
  have core: "parse_rules_loop ul [parse_at_rule] rs errs (tok # toks) =
          (case parse_rules ul rest of
             Inl x \<Rightarrow> Inl x
           | Inr (r, es) \<Rightarrow> Inr (rs @ r, errs @ e # es))"
    if "parse_rules_loop ul [parse_at_rule] rs errs (tok # toks) =
        parse_rules_loop ul [parse_at_rule] rs (errs @ [e]) rest"
    using that driver_core_after [of ul rs errs e rest] by simp
  have 1: "parse_rules_loop ul hs rs errs (tok # toks) = parse_rules_loop ul hs rs (errs @ [e]) rest
      \<and> ((\<forall>x\<in>set toks. type_name (tok_type x)) \<longrightarrow>
           rest = drop 1 (dropWhile (\<lambda>x. \<not> ends_head x) toks))
      \<and> parse_rules_loop ul [parse_at_rule] rs errs (tok # toks) =
          (case parse_rules ul rest of
             Inl x \<Rightarrow> Inl x
           | Inr (r, es) \<Rightarrow> Inr (rs @ r, errs @ e # es))"
    if h: "tok_type tok = ''ATKEYWORD''" "read_at_rule ul tok toks = (Inl (Raised e), rest)"
    using step [OF h, of hs] core [OF step [OF h, of "[parse_at_rule]"]]
      read_at_rule_rest_eq [OF h(2)]
    by (intro conjI impI)
  have 2: "parse_rules_loop ul hs rs errs (tok # toks) = parse_rules_loop ul hs rs (errs @ [e]) rest
      \<and> rest = drop 1 (dropWhile (\<lambda>x. tok_type x \<noteq> ''{'') (tok # toks))
      \<and> parse_rules_loop ul [parse_at_rule] rs errs (tok # toks) =
          (case parse_rules ul rest of
             Inl x \<Rightarrow> Inl x
           | Inr (r, es) \<Rightarrow> Inr (rs @ r, errs @ e # es))"
    if h: "tok_type tok \<notin> set [''S'', ''CDO'', ''CDC'', ''ATKEYWORD'']"
      "parse_ruleset ul tok toks = (Inl (Raised e), rest)"
    using step' [OF h, of hs] core [OF step' [OF h, of "[parse_at_rule]"]]
      parse_ruleset_rest_eq [OF h(2)]
    by (intro conjI)
  show ?thesis
    using 1 2 by blast
qed

theorem driver_recovers_witness:
  "read_at_rule ascii_table (hd stray_brace_sheet) (tl stray_brace_sheet) =
     (Inl (Raised (ParseError (OfToken (Token ''}'' ''}'' ''}'' 1 6))
             ''unmatched } token in at-rule head'')),
      [Token ''IDENT'' ''a'' ''a'' 1 8, ContainerToken ''{'' ''{'' ''}'' [] 1 9])
   \<and> parse_rules ascii_table stray_brace_sheet =
       Inr ([RuleSet (ContainerToken ''SELECTOR'' [] [] [Token ''IDENT'' ''a'' ''a'' 1 8] 1 8) [] 1 8],
            [ParseError (OfToken (Token ''}'' ''}'' ''}'' 1 6))
               ''unmatched } token in at-rule head''])
   \<and> parse_ruleset ascii_table (Token ''}'' ''}'' ''}'' 1 1) [ContainerToken ''{'' ''{'' ''}'' [] 1 2] =
       (Inl (Raised (ParseError (OfToken (Token ''}'' ''}'' ''}'' 1 1))
               ''unmatched } token in selector'')), [])
   \<and> parse_rules ascii_table [Token ''}'' ''}'' ''}'' 1 1, ContainerToken ''{'' ''{'' ''}'' [] 1 2] =
       Inr ([], [ParseError (OfToken (Token ''}'' ''}'' ''}'' 1 1))
                   ''unmatched } token in selector''])"
proof -
  let ?e = "ParseError (OfToken (Token ''}'' ''}'' ''}'' 1 6)) ''unmatched } token in at-rule head''"
  let ?rest = "[Token ''IDENT'' ''a'' ''a'' 1 8, ContainerToken ''{'' ''{'' ''}'' [] 1 9]"
  let ?e' = "ParseError (OfToken (Token ''}'' ''}'' ''}'' 1 1)) ''unmatched } token in selector''"
  have a: "read_at_rule ascii_table (hd stray_brace_sheet) (tl stray_brace_sheet) = (Inl (Raised ?e), ?rest)"
    by code_simp
  have ty: "tok_type (hd stray_brace_sheet) = ''ATKEYWORD''"
    by (simp add: stray_brace_sheet_def)
  have sh: "hd stray_brace_sheet # tl stray_brace_sheet = stray_brace_sheet"
    by (simp add: stray_brace_sheet_def)
  have r: "parse_rules ascii_table ?rest =
      Inr ([RuleSet (ContainerToken ''SELECTOR'' [] [] [Token ''IDENT'' ''a'' ''a'' 1 8] 1 8) [] 1 8], [])"
    by code_simp
  have b: "parse_rules ascii_table stray_brace_sheet =
      Inr ([RuleSet (ContainerToken ''SELECTOR'' [] [] [Token ''IDENT'' ''a'' ''a'' 1 8] 1 8) [] 1 8], [?e])"
    using driver_recovers
      [where tok = "hd stray_brace_sheet" and toks = "tl stray_brace_sheet" and e = ?e
        and rest = ?rest and rs = "[]" and errs = "[]" and hs = "[]" and ul = ascii_table]
      a ty r
    by (simp add: sh parse_rules_def [of ascii_table stray_brace_sheet])
  have c: "parse_ruleset ascii_table (Token ''}'' ''}'' ''}'' 1 1) [ContainerToken ''{'' ''{'' ''}'' [] 1 2] =
      (Inl (Raised ?e'), [])"
    by code_simp
  have r': "parse_rules ascii_table [] = Inr ([], [])"
    by code_simp
  have d: "parse_rules ascii_table [Token ''}'' ''}'' ''}'' 1 1, ContainerToken ''{'' ''{'' ''}'' [] 1 2] =
      Inr ([], [?e'])"
    using driver_recovers
      [where tok = "Token ''}'' ''}'' ''}'' 1 1" and toks = "[ContainerToken ''{'' ''{'' ''}'' [] 1 2]"
        and e = ?e' and rest = "[]" and rs = "[]" and errs = "[]" and hs = "[]" and ul = ascii_table]
      c r'
    by (simp add: parse_rules_def [of ascii_table "[Token ''}'' ''}'' ''}'' 1 1, ContainerToken ''{'' ''{'' ''}'' [] 1 2]"])
  show ?thesis
    using a b c d by simp
qed

subsection \<open>C6\<close>

text \<open>
  C6. The claim: a \<open>ParseError\<close> in one segment of a declaration list is appended to the
  returned error list while every sibling segment is still parsed. The code breaks it on
  \<open>invalid: ; foo; color: red\<close>: the first segment fails with a \<open>ParseError\<close>, the second is a
  lone property name and raises \<open>UnboundLocalError\<close> (the defect of C1), so no list is
  returned and the third segment is never parsed.
\<close>

theorem sibling_segment_lost:
  "parse_declaration_list ul three_segments = Inl UnboundLocalError"
  by code_simp

subsection \<open>C7\<close>

text \<open>
  C7. Given an at-keyword token and the tokens after it, \<open>read_at_rule\<close> consumes up to and
  including the first \<open>{\<close> or \<open>;\<close> token and leaves the rest. The head is what came before
  that token without its leading white space tokens (later white space stays). If some
  head token fails \<open>validate_any\<close> the call fails with that error and no rule; every head
  token must pass. Otherwise the rule has the lower-cased keyword, this head, the \<open>{\<close>
  token as body on \<open>{\<close> and no body on \<open>;\<close>, and the position of the at-keyword token.
  When no \<open>{\<close> or \<open>;\<close> comes, the call fails with \<open>incomplete at-rule\<close> on the last token
  read and nothing is left.
\<close>

theorem read_at_rule_head:
  "((\<forall>x\<in>set pre. type_name (tok_type x) \<and> \<not> ends_head x) \<and> ends_head t \<longrightarrow>
      read_at_rule ul (Token ty v css l c) (pre @ t # rest) =
        (case validate_any_each (dropWhile is_space pre) ''at-rule head'' of
           Inl e \<Rightarrow> (Inl e, rest)
         | Inr u \<Rightarrow>
            (Inr (AtRule (lower ul v) (dropWhile is_space pre)
                    (if tok_type t = ''{'' then Some t else None) l c),
             rest)))
   \<and> (validate_any_each hd_toks ''at-rule head'' = Inr () \<longleftrightarrow>
        (\<forall>x\<in>set hd_toks. validate_any x ''at-rule head'' = Inr ()))
   \<and> ((\<forall>x\<in>set toks. type_name (tok_type x) \<and> \<not> ends_head x) \<longrightarrow>
      read_at_rule ul (Token ty v css l c) toks =
        (Inl (Raised (ParseError (OfToken (last (Token ty v css l c # toks)))
                ''incomplete at-rule'')), []))"
proof -
  let ?a = "Token ty v css l c"
  have r: "read_at_rule ul ?a ts = read_at_rule_loop (lower ul v) ?a [] ?a ts" for ts
    by (simp add: read_at_rule_def)
  have 1: "read_at_rule ul ?a (pre @ t # rest) =
        (case validate_any_each (dropWhile is_space pre) ''at-rule head'' of
           Inl e \<Rightarrow> (Inl e, rest)
         | Inr u \<Rightarrow>
            (Inr (AtRule (lower ul v) (dropWhile is_space pre)
                    (if tok_type t = ''{'' then Some t else None) l c),
             rest))"
    if "\<forall>x\<in>set pre. type_name (tok_type x) \<and> \<not> ends_head x" "ends_head t"
    using read_at_rule_loop_head [OF that, of "lower ul v" ?a "[]" ?a rest]
    by (simp add: r cong: sum.case_cong)
  have 3: "read_at_rule ul ?a toks =
        (Inl (Raised (ParseError (OfToken (last (?a # toks))) ''incomplete at-rule'')), [])"
    if "\<forall>x\<in>set toks. type_name (tok_type x) \<and> \<not> ends_head x"
    using read_at_rule_loop_incomplete [OF that, of "lower ul v" ?a "[]" ?a]
    by (simp only: r)
  show ?thesis
    using 1 3 validate_any_each_all [of hd_toks "''at-rule head''"]
    by blast
qed

theorem read_at_rule_head_witness:
  "read_at_rule ascii_table (Token ''ATKEYWORD'' ''@Media'' ''@Media'' 1 1)
      [Token ''S'' '' '' '' '' 1 7, Token ''IDENT'' ''screen'' ''screen'' 1 8,
       Token ''S'' '' '' '' '' 1 14, ContainerToken ''{'' ''{'' ''}'' [] 1 15,
       Token ''IDENT'' ''a'' ''a'' 1 17] =
     (Inr (AtRule ''@media''
             [Token ''IDENT'' ''screen'' ''screen'' 1 8, Token ''S'' '' '' '' '' 1 14]
             (Some (ContainerToken ''{'' ''{'' ''}'' [] 1 15)) 1 1),
      [Token ''IDENT'' ''a'' ''a'' 1 17])
   \<and> read_at_rule ascii_table (Token ''ATKEYWORD'' ''@Media'' ''@Media'' 1 1)
      [Token ''S'' '' '' '' '' 1 7, Token ''IDENT'' ''screen'' ''screen'' 1 8] =
     (Inl (Raised (ParseError (OfToken (Token ''IDENT'' ''screen'' ''screen'' 1 8))
             ''incomplete at-rule'')), [])"
proof -
  let ?sp = "Token ''S'' '' '' '' '' 1 7"
  let ?id = "Token ''IDENT'' ''screen'' ''screen'' 1 8"
  let ?sp2 = "Token ''S'' '' '' '' '' 1 14"
  let ?blk = "ContainerToken ''{'' ''{'' ''}'' [] 1 15"
  have lw: "lower ascii_table ''@Media'' = ''@media''"
    by code_simp
  have v: "validate_any_each [?id, ?sp2] ''at-rule head'' = Inr ()"
    by (simp add: any_types_def)
  have a: "read_at_rule ascii_table (Token ''ATKEYWORD'' ''@Media'' ''@Media'' 1 1)
      ([?sp, ?id, ?sp2] @ ?blk # [Token ''IDENT'' ''a'' ''a'' 1 17]) =
     (Inr (AtRule ''@media'' [?id, ?sp2] (Some ?blk) 1 1), [Token ''IDENT'' ''a'' ''a'' 1 17])"
    using read_at_rule_head
      [where pre = "[?sp, ?id, ?sp2]" and t = ?blk and rest = "[Token ''IDENT'' ''a'' ''a'' 1 17]"
        and ty = "''ATKEYWORD''" and v = "''@Media''" and css = "''@Media''" and l = 1 and c = 1
        and ul = ascii_table]
      lw v
    by (simp add: type_name_def ends_head_def is_space_def)
  have b: "read_at_rule ascii_table (Token ''ATKEYWORD'' ''@Media'' ''@Media'' 1 1) [?sp, ?id] =
     (Inl (Raised (ParseError (OfToken ?id) ''incomplete at-rule'')), [])"
    using read_at_rule_head
      [where toks = "[?sp, ?id]"
        and ty = "''ATKEYWORD''" and v = "''@Media''" and css = "''@Media''" and l = 1 and c = 1
        and ul = ascii_table]
    by (simp add: type_name_def ends_head_def)
  show ?thesis
    using a b by simp
qed

subsection \<open>C8\<close>

text \<open>
  C8. For a single declaration \<open>name: value;\<close> (an identifier token, white space tokens,
  a colon, value tokens that are all valid and not all white space, a semicolon),
  \<open>parse_declaration_list\<close> returns no error and exactly one declaration: its name is the
  identifier's value lower-cased by \<open>str.lower()\<close>, its position the identifier's, and its value the
  \<open>VALUES\<close> container, placed at its first token, whose content is the value tokens
  without leading and trailing white space tokens, the inner ones kept in order.
\<close>

theorem single_declaration_round_trip:
  "(\<forall>w\<in>set ws. is_space w) \<and> tok_type colon = '':''
     \<and> (\<forall>x\<in>set vs. value_token_ok x) \<and> (\<exists>x\<in>set vs. \<not> is_space x)
     \<and> tok_type semi = '';'' \<longrightarrow>
   trim_spaces vs \<noteq> []
   \<and> parse_declaration_list ul (Token ''IDENT'' v css l c # ws @ colon # vs @ [semi]) =
       Inr ([Declaration (lower ul v)
               (ContainerToken ''VALUES'' [] [] (trim_spaces vs)
                  (tok_line (hd (trim_spaces vs))) (tok_column (hd (trim_spaces vs))))
               l c], [])"
proof (intro impI, elim conjE)
  let ?name = "Token ''IDENT'' v css l c"
  let ?seg = "?name # ws @ colon # vs"
  assume ws: "\<forall>w\<in>set ws. is_space w" and colon: "tok_type colon = '':''"
    and vs: "\<forall>x\<in>set vs. value_token_ok x" and some: "\<exists>x\<in>set vs. \<not> is_space x"
    and semi: "tok_type semi = '';''"
  have nonempty: "trim_spaces vs \<noteq> []"
    using some by (rule trim_spaces_nonempty)
  have "\<forall>x\<in>set ?seg. tok_type x \<noteq> '';''"
    using ws colon vs value_token_ok_not_semi by (auto simp: is_space_def)
  then have "split_parts [] [] (?seg @ semi # []) = split_parts [?seg] [] []"
    using split_parts_segment [of ?seg semi "[]" "[]" "[]"] semi
    by (simp add: is_space_def)
  then have parts: "split_parts [] [] (?name # ws @ colon # vs @ [semi]) = [?seg]"
    by simp
  obtain first more where fm: "trim_spaces vs = first # more"
    using nonempty by (cases "trim_spaces vs") auto
  have decl: "parse_declaration ul ?seg =
      Inr (Declaration (lower ul v)
             (ContainerToken ''VALUES'' [] [] (trim_spaces vs)
                (tok_line (hd (trim_spaces vs))) (tok_column (hd (trim_spaces vs))))
             l c)"
    using find_colon_spaces [OF ws colon, of None vs] parse_value_ok [OF vs] fm
    by simp
  show "trim_spaces vs \<noteq> []
   \<and> parse_declaration_list ul (?name # ws @ colon # vs @ [semi]) =
       Inr ([Declaration (lower ul v)
               (ContainerToken ''VALUES'' [] [] (trim_spaces vs)
                  (tok_line (hd (trim_spaces vs))) (tok_column (hd (trim_spaces vs))))
               l c], [])"
    using nonempty parts decl
    by (simp add: parse_declaration_list_def)
qed

theorem single_declaration_round_trip_witness:
  "parse_declaration_list ascii_table
     [Token ''IDENT'' ''Color'' ''Color'' 1 1, Token ''S'' '' '' '' '' 1 6,
      Token '':'' '':'' '':'' 1 7, Token ''S'' '' '' '' '' 1 8,
      Token ''IDENT'' ''a'' ''a'' 1 9, Token ''S'' '' '' '' '' 1 10,
      ContainerToken ''{'' ''{'' ''}'' [Token '';'' '';'' '';'' 1 12] 1 11,
      Token ''S'' '' '' '' '' 1 14, Token '';'' '';'' '';'' 1 15] =
   Inr ([Declaration ''color''
           (ContainerToken ''VALUES'' [] []
              [Token ''IDENT'' ''a'' ''a'' 1 9, Token ''S'' '' '' '' '' 1 10,
               ContainerToken ''{'' ''{'' ''}'' [Token '';'' '';'' '';'' 1 12] 1 11] 1 9)
           1 1], [])"
proof -
  let ?vs = "[Token ''S'' '' '' '' '' 1 8,
      Token ''IDENT'' ''a'' ''a'' 1 9, Token ''S'' '' '' '' '' 1 10,
      ContainerToken ''{'' ''{'' ''}'' [Token '';'' '';'' '';'' 1 12] 1 11,
      Token ''S'' '' '' '' '' 1 14]"
  have lw: "lower ascii_table ''Color'' = ''color''"
    by code_simp
  have tr: "trim_spaces ?vs =
      [Token ''IDENT'' ''a'' ''a'' 1 9, Token ''S'' '' '' '' '' 1 10,
       ContainerToken ''{'' ''{'' ''}'' [Token '';'' '';'' '';'' 1 12] 1 11]"
    by (simp add: trim_spaces_def is_space_def)
  have ok: "\<forall>x\<in>set ?vs. value_token_ok x"
    by (simp add: value_token_ok_def any_types_def)
  have sp: "\<exists>x\<in>set ?vs. \<not> is_space x"
    by (simp add: is_space_def)
  show ?thesis
    using single_declaration_round_trip
      [where ws = "[Token ''S'' '' '' '' '' 1 6]" and colon = "Token '':'' '':'' '':'' 1 7"
        and vs = ?vs and semi = "Token '';'' '';'' '';'' 1 15" and v = "''Color''"
        and css = "''Color''" and l = 1 and c = 1 and ul = ascii_table]
      ok sp lw
    by (simp add: tr is_space_def)
qed

subsection \<open>C9\<close>

text \<open>
  C9. The claim: \<open>parse_ruleset\<close> succeeds whenever the block comes with no selector
  before it. The code breaks it on \<open>{foo}\<close>: the block's content is a lone property name,
  and the \<open>UnboundLocalError\<close> of C1 leaves \<open>parse_ruleset\<close> in place of a rule set.
\<close>

theorem bare_block_fails:
  "parse_ruleset ul bare_block [] = (Inl UnboundLocalError, [])"
  by code_simp

subsection \<open>C10\<close>

text \<open>
  C10. \<open>at_keyword\<close> tells the two kinds of rule apart. It is \<open>None\<close> on every rule set,
  and so on every rule that \<open>parse_ruleset\<close> returns. On every at-rule that \<open>read_at_rule\<close>
  returns it is the lower-casing (\<open>str.lower()\<close>) of the value of the at-keyword token.
  When that value starts with \<open>@\<close>, as the tokenizer's at-keyword values do: for an ASCII
  value the keyword is \<open>@\<close> followed by the rest with \<open>A\<close> to \<open>Z\<close> mapped to \<open>a\<close> to \<open>z\<close>, and it
  holds no upper-case ASCII letter; for any value, given that \<open>str.lower()\<close> keeps a leading
  \<open>@\<close> and changes none of its results, the keyword starts with \<open>@\<close> (so it is not empty)
  and lower-casing leaves it as it is.
\<close>

theorem at_keyword_discriminates:
  "at_keyword (RuleSet sel ds l c) = None
   \<and> (parse_ruleset ul first toks = (Inr (r, errs), rest) \<longrightarrow> at_keyword r = None)
   \<and> (read_at_rule ul tok toks' = (Inr rule, rest') \<longrightarrow>
        get_value tok = Inr (tok_value tok)
        \<and> at_keyword rule = Some (lower ul (tok_value tok)))
   \<and> (is_ascii name
        \<and> read_at_rule ul (Token ty (CHR ''@'' # name) css l' c') toks' = (Inr rule, rest') \<longrightarrow>
        at_keyword rule = Some (CHR ''@'' # map char_lower name)
        \<and> lower ul (CHR ''@'' # map char_lower name) = CHR ''@'' # map char_lower name
        \<and> (\<forall>ch\<in>set (CHR ''@'' # map char_lower name).
              \<not> (65 \<le> (of_char ch :: nat) \<and> (of_char ch :: nat) \<le> 90)))
   \<and> (keeps_at ul \<and> lowers_once ul
        \<and> read_at_rule ul (Token ty (CHR ''@'' # name) css l' c') toks' = (Inr rule, rest') \<longrightarrow>
        (\<exists>k. at_keyword rule = Some (CHR ''@'' # k)
           \<and> lower ul (CHR ''@'' # k) = CHR ''@'' # k))"
proof -
  have rs: "at_keyword r = None" if "parse_ruleset ul first toks = (Inr (r, errs), rest)"
    using parse_ruleset_loop_ruleset [OF that [unfolded parse_ruleset_def]] by auto
  have gen: "get_value tok = Inr (tok_value tok)
      \<and> at_keyword rule = Some (lower ul (tok_value tok))"
    if "read_at_rule ul tok toks' = (Inr rule, rest')"
    using read_at_rule_keyword [OF that] .
  have tokv: "at_keyword rule = Some (lower ul (CHR ''@'' # name))"
    if "read_at_rule ul (Token ty (CHR ''@'' # name) css l' c') toks' = (Inr rule, rest')"
    using read_at_rule_keyword [OF that] by simp
  have asc: "lower ul (CHR ''@'' # name) = CHR ''@'' # map char_lower name"
    if "is_ascii name"
    using that by (simp add: lower_def is_ascii_def char_lower_at)
  have low: "lower ul (CHR ''@'' # map char_lower name) = CHR ''@'' # map char_lower name"
    if "is_ascii name"
    using lower_ascii_idem [of "CHR ''@'' # name" ul] asc [OF that] that
    by (simp add: is_ascii_def)
  have up: "\<forall>ch\<in>set (CHR ''@'' # map char_lower name).
      \<not> (65 \<le> (of_char ch :: nat) \<and> (of_char ch :: nat) \<le> 90)"
    using char_lower_not_upper by auto
  have any: "\<exists>k. at_keyword rule = Some (CHR ''@'' # k)
      \<and> lower ul (CHR ''@'' # k) = CHR ''@'' # k"
    if h: "keeps_at ul" "lowers_once ul"
      "read_at_rule ul (Token ty (CHR ''@'' # name) css l' c') toks' = (Inr rule, rest')"
  proof -
    obtain k where k: "lower ul (CHR ''@'' # name) = CHR ''@'' # k"
      using lower_keeps_at [OF h(1)] by blast
    have "lower ul (CHR ''@'' # k) = CHR ''@'' # k"
      using lower_idem [OF h(2), of "CHR ''@'' # name"] k by simp
    then show ?thesis
      using tokv [OF h(3)] k by simp
  qed
  show ?thesis
    using rs gen tokv asc low up any by simp
qed

theorem at_keyword_discriminates_witness:
  "parse_ruleset ascii_table (ContainerToken ''{'' ''{'' ''}'' [] 1 1) [] =
     (Inr (RuleSet (ContainerToken ''SELECTOR'' [] [] [] 1 1) [] 1 1, []), [])
   \<and> at_keyword (RuleSet (ContainerToken ''SELECTOR'' [] [] [] 1 1) [] 1 1) = None
   \<and> keeps_at ascii_table \<and> lowers_once ascii_table \<and> is_ascii ''ChArSet''
   \<and> read_at_rule ascii_table (Token ''ATKEYWORD'' ''@ChArSet'' ''@ChArSet'' 1 1)
        (tl scenario_a) = (Inr scenario_a_rule, [])
   \<and> at_keyword scenario_a_rule = Some ''@charset''
   \<and> lower ascii_table ''@charset'' = ''@charset''"
proof -
  let ?r = "RuleSet (ContainerToken ''SELECTOR'' [] [] [] 1 1) [] 1 1"
  have p: "parse_ruleset ascii_table (ContainerToken ''{'' ''{'' ''}'' [] 1 1) [] =
      (Inr (?r, []), [])"
    by code_simp
  have q: "read_at_rule ascii_table
      (Token ''ATKEYWORD'' (CHR ''@'' # ''ChArSet'') ''@ChArSet'' 1 1)
      (tl scenario_a) = (Inr scenario_a_rule, [])"
    by code_simp
  have asc: "is_ascii ''ChArSet''"
    by code_simp
  have lw: "map char_lower ''ChArSet'' = ''charset''"
    by code_simp
  have t: "keeps_at ascii_table" "lowers_once ascii_table"
    by (rule keeps_at_ascii_table, rule lowers_once_ascii_table)
  have n: "at_keyword ?r = None"
    using p at_keyword_discriminates
      [where ul = ascii_table and first = "ContainerToken ''{'' ''{'' ''}'' [] 1 1"
        and toks = "[]" and r = ?r and errs = "[]" and rest = "[]"]
    by simp
  have k: "at_keyword scenario_a_rule = Some ''@charset''
      \<and> lower ascii_table ''@charset'' = ''@charset''"
    using q lw asc at_keyword_discriminates
      [where ul = ascii_table and ty = "''ATKEYWORD''" and name = "''ChArSet''"
        and css = "''@ChArSet''" and l' = 1 and c' = 1 and toks' = "tl scenario_a"
        and rule = scenario_a_rule and rest' = "[]"]
    by simp
  show ?thesis
    using p q n k t asc by simp
qed

end
